theory Spec2Isabelle
  imports Main
begin

section \<open>JavaScript numbers and the built-in Date\<close>

text \<open>
  The two components compute with the built-in \<^verbatim>\<open>Date\<close> of JavaScript. Its operations are
  embedded here as ECMAScript defines them (section "Date Objects": Day, DaysInYear,
  DayFromYear, YearFromTime, MonthFromTime, DateFromTime, WeekDay, MakeDay, MakeDate,
  TimeClip and the Date constructor). A number is an integer or \<^verbatim>\<open>NaN\<close>: every number the
  components pass to or read from a Date is an integer below \<open>2^53\<close>, where doubles are exact.
\<close>

datatype jsnum = NaN | Num int

text \<open>\<^verbatim>\<open>x + k\<close> for a literal \<open>k\<close>: \<^verbatim>\<open>NaN\<close> is absorbing.\<close>

fun num_add :: "jsnum \<Rightarrow> int \<Rightarrow> jsnum" where
  "num_add NaN k = NaN"
| "num_add (Num n) k = Num (n + k)"

text \<open>\<^verbatim>\<open>===\<close>, \<^verbatim>\<open><\<close> and \<^verbatim>\<open><=\<close> on numbers: every comparison with \<^verbatim>\<open>NaN\<close> is false.\<close>

fun strict_eq :: "jsnum \<Rightarrow> jsnum \<Rightarrow> bool" where
  "strict_eq (Num a) (Num b) = (a = b)"
| "strict_eq _ _ = False"

fun num_less :: "jsnum \<Rightarrow> jsnum \<Rightarrow> bool" where
  "num_less (Num a) (Num b) = (a < b)"
| "num_less _ _ = False"

fun num_le :: "jsnum \<Rightarrow> jsnum \<Rightarrow> bool" where
  "num_le (Num a) (Num b) = (a \<le> b)"
| "num_le _ _ = False"

subsection \<open>Day number and time within day\<close>

definition msPerDay :: int where
  "msPerDay = 86400000"

definition Day :: "int \<Rightarrow> int" where
  "Day t = t div msPerDay"

definition TimeWithinDay :: "int \<Rightarrow> int" where
  "TimeWithinDay t = t mod msPerDay"

subsection \<open>Year number\<close>

definition DaysInYear :: "int \<Rightarrow> int" where
  "DaysInYear y =
     (if y mod 4 \<noteq> 0 then 365
      else if y mod 100 \<noteq> 0 then 366
      else if y mod 400 \<noteq> 0 then 365
      else 366)"

definition DayFromYear :: "int \<Rightarrow> int" where
  "DayFromYear y =
     365 * (y - 1970) + (y - 1969) div 4 - (y - 1901) div 100 + (y - 1601) div 400"

definition TimeFromYear :: "int \<Rightarrow> int" where
  "TimeFromYear y = msPerDay * DayFromYear y"

text \<open>
  ECMAScript defines \<open>YearFromTime t\<close> as the largest \<open>y\<close> with \<open>TimeFromYear y \<le> t\<close>.
  \<open>YearFromDay\<close> computes it: the estimate \<open>e\<close> from the mean year length of 146097/400
  days is off by at most one, so the year is the largest of \<open>e - 1\<close>, \<open>e\<close>, \<open>e + 1\<close> that
  starts on or before the day. Lemma \<open>YearFromTime_largest\<close> below proves that this is the
  year of the ECMAScript text.
\<close>

definition YearFromDay :: "int \<Rightarrow> int" where
  "YearFromDay d =
     (let e = 1970 + (d * 400) div 146097 in
      if DayFromYear (e + 1) \<le> d then e + 1
      else if DayFromYear e \<le> d then e
      else e - 1)"

definition YearFromTime :: "int \<Rightarrow> int" where
  "YearFromTime t = YearFromDay (Day t)"

definition InLeapYear :: "int \<Rightarrow> int" where
  "InLeapYear t = (if DaysInYear (YearFromTime t) = 366 then 1 else 0)"

subsection \<open>Month number, date number, week day\<close>

definition DayWithinYear :: "int \<Rightarrow> int" where
  "DayWithinYear t = Day t - DayFromYear (YearFromTime t)"

definition MonthFromTime :: "int \<Rightarrow> int" where
  "MonthFromTime t =
     (let d = DayWithinYear t; l = InLeapYear t in
      if d < 31 then 0
      else if d < 59 + l then 1
      else if d < 90 + l then 2
      else if d < 120 + l then 3
      else if d < 151 + l then 4
      else if d < 181 + l then 5
      else if d < 212 + l then 6
      else if d < 243 + l then 7
      else if d < 273 + l then 8
      else if d < 304 + l then 9
      else if d < 334 + l then 10
      else 11)"

definition DateFromTime :: "int \<Rightarrow> int" where
  "DateFromTime t =
     (let d = DayWithinYear t; l = InLeapYear t; m = MonthFromTime t in
      if m = 0 then d + 1
      else if m = 1 then d - 30
      else if m = 2 then d - 58 - l
      else if m = 3 then d - 89 - l
      else if m = 4 then d - 119 - l
      else if m = 5 then d - 150 - l
      else if m = 6 then d - 180 - l
      else if m = 7 then d - 211 - l
      else if m = 8 then d - 242 - l
      else if m = 9 then d - 272 - l
      else if m = 10 then d - 303 - l
      else d - 333 - l)"

definition WeekDay :: "int \<Rightarrow> int" where
  "WeekDay t = (Day t + 4) mod 7"

subsection \<open>Local time\<close>

text \<open>
  The local time zone is an input of the environment, given by the two readings of
  \<open>LocalTZA\<close> that ECMAScript uses: \<open>utc_offset z t\<close> is the offset from UTC, in
  milliseconds, in force at the instant \<open>t\<close>, and \<open>local_offset z x\<close> is the offset by
  which the zone reads the local time \<open>x\<close>, where a local time that a transition skips or
  repeats is read by the rule of the platform. The offsets may change from one instant
  to the next (daylight saving, changes of the zone).
\<close>

record zone =
  utc_offset :: "int \<Rightarrow> int"
  local_offset :: "int \<Rightarrow> int"

definition LocalTime :: "zone \<Rightarrow> int \<Rightarrow> int" where
  "LocalTime z t = t + utc_offset z t"

definition UTC :: "zone \<Rightarrow> int \<Rightarrow> int" where
  "UTC z x = x - local_offset z x"

subsection \<open>Building a time value\<close>

definition MakeTime :: "int \<Rightarrow> int \<Rightarrow> int \<Rightarrow> int \<Rightarrow> int" where
  "MakeTime hour minute sec ms = hour * 3600000 + minute * 60000 + sec * 1000 + ms"

text \<open>Days of the year before month \<open>mn\<close> (0 is January), \<open>l\<close> being 1 in a leap year.\<close>

definition DaysBeforeMonth :: "int \<Rightarrow> int \<Rightarrow> int" where
  "DaysBeforeMonth l mn =
     (if mn = 0 then 0
      else if mn = 1 then 31
      else if mn = 2 then 59 + l
      else if mn = 3 then 90 + l
      else if mn = 4 then 120 + l
      else if mn = 5 then 151 + l
      else if mn = 6 then 181 + l
      else if mn = 7 then 212 + l
      else if mn = 8 then 243 + l
      else if mn = 9 then 273 + l
      else if mn = 10 then 304 + l
      else 334 + l)"

text \<open>
  \<open>MakeDay year month date\<close>: with \<open>ym = year + floor (month / 12)\<close> and
  \<open>mn = month mod 12\<close>, ECMAScript takes a time \<open>t\<close> whose year is \<open>ym\<close>, whose month is
  \<open>mn\<close> and whose date is 1, and returns \<open>Day t + date - 1\<close>. The day number of that \<open>t\<close> is
  computed here from the start of the year; lemma \<open>MakeDay_fields\<close> proves that it has
  the year, month and date that the ECMAScript text asks for.
\<close>

definition MakeDay :: "int \<Rightarrow> int \<Rightarrow> int \<Rightarrow> int" where
  "MakeDay year month dt =
     (let ym = year + month div 12; mn = month mod 12 in
      DayFromYear ym + DaysBeforeMonth (if DaysInYear ym = 366 then 1 else 0) mn + dt - 1)"

definition MakeDate :: "int \<Rightarrow> int \<Rightarrow> int" where
  "MakeDate day time = day * msPerDay + time"

definition TimeClip :: "int \<Rightarrow> jsnum" where
  "TimeClip t = (if \<bar>t\<bar> > 8640000000000000 then NaN else Num t)"

subsection \<open>Date objects\<close>

text \<open>
  A Date object is its time value: milliseconds since the epoch in UTC, or \<^verbatim>\<open>NaN\<close> for an
  invalid date. \<^verbatim>\<open>new Date(year, month, date)\<close> reads its arguments as local time, and maps a
  year from 0 to 99 to 1900 + year. \<^verbatim>\<open>new Date(year, month)\<close> is the first of the month.
\<close>

type_synonym jsdate = jsnum

fun newDate3 :: "zone \<Rightarrow> jsnum \<Rightarrow> jsnum \<Rightarrow> jsnum \<Rightarrow> jsdate" where
  "newDate3 z (Num y) (Num m) (Num dt) =
     (let yr = (if 0 \<le> y \<and> y \<le> 99 then 1900 + y else y) in
      TimeClip (UTC z (MakeDate (MakeDay yr m dt) (MakeTime 0 0 0 0))))"
| "newDate3 z _ _ _ = NaN"

definition newDate2 :: "zone \<Rightarrow> jsnum \<Rightarrow> jsnum \<Rightarrow> jsdate" where
  "newDate2 z y m = newDate3 z y m (Num 1)"

fun getFullYear :: "zone \<Rightarrow> jsdate \<Rightarrow> jsnum" where
  "getFullYear z NaN = NaN"
| "getFullYear z (Num t) = Num (YearFromTime (LocalTime z t))"

fun getMonth :: "zone \<Rightarrow> jsdate \<Rightarrow> jsnum" where
  "getMonth z NaN = NaN"
| "getMonth z (Num t) = Num (MonthFromTime (LocalTime z t))"

fun getDate :: "zone \<Rightarrow> jsdate \<Rightarrow> jsnum" where
  "getDate z NaN = NaN"
| "getDate z (Num t) = Num (DateFromTime (LocalTime z t))"

fun getDay :: "zone \<Rightarrow> jsdate \<Rightarrow> jsnum" where
  "getDay z NaN = NaN"
| "getDay z (Num t) = Num (WeekDay (LocalTime z t))"

subsection \<open>Numbers and dates as strings\<close>

text \<open>
  \<open>ToString\<close> is the decimal representation of an integer, \<^verbatim>\<open>"NaN"\<close> for \<^verbatim>\<open>NaN\<close>;
  \<open>padStart n c s\<close> is \<^verbatim>\<open>s.padStart(n, c)\<close> for the one-character filler \<open>c\<close>.
\<close>

definition digit_char :: "nat \<Rightarrow> char" where
  "digit_char n = ''0123456789'' ! n"

fun nat_digits :: "nat \<Rightarrow> string" where
  "nat_digits n =
     (if n < 10 then [digit_char n] else nat_digits (n div 10) @ [digit_char (n mod 10)])"

declare nat_digits.simps [simp del]

fun ToString :: "jsnum \<Rightarrow> string" where
  "ToString NaN = ''NaN''"
| "ToString (Num n) = (if n < 0 then ''-'' @ nat_digits (nat (- n)) else nat_digits (nat n))"

definition padStart :: "nat \<Rightarrow> char \<Rightarrow> string \<Rightarrow> string" where
  "padStart n c s = replicate (n - length s) c @ s"

definition WeekDayName :: "int \<Rightarrow> string" where
  "WeekDayName d =
     (if d = 0 then ''Sun'' else if d = 1 then ''Mon'' else if d = 2 then ''Tue''
      else if d = 3 then ''Wed'' else if d = 4 then ''Thu'' else if d = 5 then ''Fri''
      else ''Sat'')"

definition MonthName :: "int \<Rightarrow> string" where
  "MonthName m =
     (if m = 0 then ''Jan'' else if m = 1 then ''Feb'' else if m = 2 then ''Mar''
      else if m = 3 then ''Apr'' else if m = 4 then ''May'' else if m = 5 then ''Jun''
      else if m = 6 then ''Jul'' else if m = 7 then ''Aug'' else if m = 8 then ''Sep''
      else if m = 9 then ''Oct'' else if m = 10 then ''Nov'' else ''Dec'')"

text \<open>
  \<open>DateString tv\<close> of ECMAScript, for a local time \<open>tv\<close>: week day, month name, the day
  padded to two digits, and the year padded to four digits after its sign.
\<close>

definition DateString :: "int \<Rightarrow> string" where
  "DateString tv =
     (let yv = YearFromTime tv in
      WeekDayName (WeekDay tv) @ '' '' @ MonthName (MonthFromTime tv) @ '' '' @
      padStart 2 CHR ''0'' (nat_digits (nat (DateFromTime tv))) @ '' '' @
      (if 0 \<le> yv then [] else ''-'') @ padStart 4 CHR ''0'' (nat_digits (nat \<bar>yv\<bar>)))"

fun toDateString :: "zone \<Rightarrow> jsdate \<Rightarrow> string" where
  "toDateString z NaN = ''Invalid Date''"
| "toDateString z (Num t) = DateString (LocalTime z t)"

section \<open>Statements that may throw\<close>

text \<open>
  The asynchronous handlers of both components are sequences of state updates inside
  \<^verbatim>\<open>try\<close>/\<^verbatim>\<open>catch\<close>/\<^verbatim>\<open>finally\<close>. A statement maps a state to a completion and the state it
  leaves. An awaited backend call is given by its outcome.
\<close>

datatype api_error = ApiError (detail: "string option")

text \<open>
  \<open>detail e\<close> is \<^verbatim>\<open>e.response?.data?.detail\<close>: \<open>None\<close> when the response, its data or the
  field is missing.
\<close>

datatype 'a outcome = Resolved 'a | Rejected api_error

datatype completion = Normal | Return | Throw api_error

type_synonym 's stmt = "'s \<Rightarrow> completion \<times> 's"

definition exec :: "('s \<Rightarrow> 's) \<Rightarrow> 's stmt" where
  "exec f s = (Normal, f s)"

definition skip :: "'s stmt" where
  "skip s = (Normal, s)"

definition ret :: "'s stmt" where
  "ret s = (Return, s)"

fun continue_with :: "completion \<times> 's \<Rightarrow> 's stmt \<Rightarrow> completion \<times> 's" where
  "continue_with (Normal, s) q = q s"
| "continue_with (c, s) q = (c, s)"

definition seq :: "'s stmt \<Rightarrow> 's stmt \<Rightarrow> 's stmt" where
  "seq p q s = continue_with (p s) q"

fun catch_with :: "completion \<times> 's \<Rightarrow> (api_error \<Rightarrow> 's stmt) \<Rightarrow> completion \<times> 's" where
  "catch_with (Throw e, s) h = h e s"
| "catch_with (c, s) h = (c, s)"

definition try_catch :: "'s stmt \<Rightarrow> (api_error \<Rightarrow> 's stmt) \<Rightarrow> 's stmt" where
  "try_catch p h s = catch_with (p s) h"

text \<open>
  \<^verbatim>\<open>finally\<close>: the block runs after every completion of the body; when it completes
  normally the completion of the body stands, otherwise its own does.
\<close>

fun finally_with :: "completion \<times> 's \<Rightarrow> 's stmt \<Rightarrow> completion \<times> 's" where
  "finally_with (c, s) f = (case f s of (Normal, s') \<Rightarrow> (c, s') | (c', s') \<Rightarrow> (c', s'))"

definition try_finally :: "'s stmt \<Rightarrow> 's stmt \<Rightarrow> 's stmt" where
  "try_finally p f s = finally_with (p s) f"

text \<open>\<^verbatim>\<open>const v = await call\<close>: a rejected call throws, a resolved one binds its value.\<close>

fun await :: "'a outcome \<Rightarrow> ('a \<Rightarrow> 's stmt) \<Rightarrow> 's stmt" where
  "await (Resolved v) k s = k v s"
| "await (Rejected e) k s = (Throw e, s)"

text \<open>
  A call of an async function whose promise is not awaited, given by the part of the
  callee that runs before its first \<^verbatim>\<open>await\<close>: the caller goes on normally with the
  state that part leaves, whatever its completion.
\<close>

definition call_unawaited :: "'s stmt \<Rightarrow> 's stmt" where
  "call_unawaited p s = (Normal, snd (p s))"

section \<open>The calendar component (Calendar.jsx)\<close>

subsection \<open>Events and component state\<close>

text \<open>
  An event as the backend returns it. A field that is absent is \<open>None\<close>. A string is
  truthy when it is present and not empty, which is what \<^verbatim>\<open>event.start?.date\<close> tests.
\<close>

record event_start =
  date :: "string option"
  dateTime :: "string option"

record event =
  event_id :: "string option"
  summary :: "string option"
  start :: "event_start option"
  location :: "string option"

fun truthy :: "string option \<Rightarrow> bool" where
  "truthy None = False"
| "truthy (Some s) = (s \<noteq> [])"

text \<open>\<^verbatim>\<open>event.start?.date\<close> and \<^verbatim>\<open>event.start?.dateTime\<close>.\<close>

definition start_date :: "event \<Rightarrow> string option" where
  "start_date e = (case start e of None \<Rightarrow> None | Some s \<Rightarrow> date s)"

definition start_dateTime :: "event \<Rightarrow> string option" where
  "start_dateTime e = (case start e of None \<Rightarrow> None | Some s \<Rightarrow> dateTime s)"

datatype log_entry = LogError string api_error | LogInfo string

record calendar_state =
  currentDate :: jsdate
  selectedDate :: "jsdate option"
  allEvents :: "event list"
  loading :: bool
  cal_console :: "log_entry list"

subsection \<open>Month arithmetic and navigation\<close>

definition getDaysInMonth :: "zone \<Rightarrow> jsdate \<Rightarrow> jsnum" where
  "getDaysInMonth z d =
     (let year = getFullYear z d; month = getMonth z d in
      getDate z (newDate3 z year (num_add month 1) (Num 0)))"

definition getFirstDayOfMonth :: "zone \<Rightarrow> jsdate \<Rightarrow> jsnum" where
  "getFirstDayOfMonth z d =
     (let year = getFullYear z d; month = getMonth z d in
      getDay z (newDate3 z year month (Num 1)))"

definition prevMonth :: "zone \<Rightarrow> calendar_state \<Rightarrow> calendar_state" where
  "prevMonth z st =
     st\<lparr>currentDate :=
          newDate2 z (getFullYear z (currentDate st))
            (num_add (getMonth z (currentDate st)) (- 1))\<rparr>"

definition nextMonth :: "zone \<Rightarrow> calendar_state \<Rightarrow> calendar_state" where
  "nextMonth z st =
     st\<lparr>currentDate :=
          newDate2 z (getFullYear z (currentDate st))
            (num_add (getMonth z (currentDate st)) 1)\<rparr>"

text \<open>The two navigation buttons, and a sequence of clicks on them.\<close>

datatype nav = PrevMonth | NextMonth

fun navigate :: "zone \<Rightarrow> nav \<Rightarrow> calendar_state \<Rightarrow> calendar_state" where
  "navigate z PrevMonth st = prevMonth z st"
| "navigate z NextMonth st = nextMonth z st"

definition navigate_all :: "zone \<Rightarrow> nav list \<Rightarrow> calendar_state \<Rightarrow> calendar_state" where
  "navigate_all z acts st = foldl (\<lambda>s a. navigate z a s) st acts"

text \<open>
  Proof vocabulary for the grid and for navigation. \<open>keeps_midnight z D\<close>: the zone reads
  the local midnight that opens day \<open>D\<close> as an instant of day \<open>D\<close>, with an offset of at
  most a day; it fails for a day that the zone skips. \<open>displays z st i\<close>: the state shows
  the month with index \<open>i = 12 * year + month\<close>. \<open>plain_year y\<close>: the Date constructor
  takes the year \<open>y\<close> as it is (it is outside 0 to 99) and the year lies inside the Date
  range. \<open>plain_month z i\<close>: the month with index \<open>i\<close> is of such a year and the zone keeps
  the midnight of its first day. \<open>month_shift\<close>: what a button adds to the month index.
\<close>

definition keeps_midnight :: "zone \<Rightarrow> int \<Rightarrow> bool" where
  "keeps_midnight z D \<longleftrightarrow>
     \<bar>local_offset z (D * msPerDay)\<bar> \<le> msPerDay \<and>
     Day (LocalTime z (UTC z (D * msPerDay))) = D"

definition displays :: "zone \<Rightarrow> calendar_state \<Rightarrow> int \<Rightarrow> bool" where
  "displays z st i \<longleftrightarrow>
     getFullYear z (currentDate st) = Num (i div 12) \<and>
     getMonth z (currentDate st) = Num (i mod 12)"

definition plain_year :: "int \<Rightarrow> bool" where
  "plain_year y \<longleftrightarrow> (y < 0 \<or> 99 < y) \<and> - 271820 \<le> y \<and> y \<le> 275759"

definition plain_month :: "zone \<Rightarrow> int \<Rightarrow> bool" where
  "plain_month z i \<longleftrightarrow>
     plain_year (i div 12) \<and> keeps_midnight z (MakeDay (i div 12) (i mod 12) 1)"

fun month_shift :: "nav \<Rightarrow> int" where
  "month_shift NextMonth = 1"
| "month_shift PrevMonth = - 1"

text \<open>\<open>now\<close> is the time value that \<^verbatim>\<open>new Date()\<close> returns when the function runs.\<close>

definition isToday :: "zone \<Rightarrow> int \<Rightarrow> calendar_state \<Rightarrow> int \<Rightarrow> bool" where
  "isToday z now st day =
     (let today = Num now in
      strict_eq (Num day) (getDate z today) \<and>
      strict_eq (getMonth z (currentDate st)) (getMonth z today) \<and>
      strict_eq (getFullYear z (currentDate st)) (getFullYear z today))"

definition isSelected :: "zone \<Rightarrow> calendar_state \<Rightarrow> int \<Rightarrow> bool" where
  "isSelected z st day =
     (case selectedDate st of
        None \<Rightarrow> False
      | Some sel \<Rightarrow>
          strict_eq (Num day) (getDate z sel) \<and>
          strict_eq (getMonth z (currentDate st)) (getMonth z sel) \<and>
          strict_eq (getFullYear z (currentDate st)) (getFullYear z sel))"

definition handleDateClick :: "zone \<Rightarrow> int \<Rightarrow> calendar_state \<Rightarrow> calendar_state" where
  "handleDateClick z day st =
     st\<lparr>selectedDate :=
          Some (newDate3 z (getFullYear z (currentDate st))
                  (getMonth z (currentDate st)) (Num day))\<rparr>"

subsection \<open>The month grid\<close>

text \<open>
  A cell of the grid: an empty placeholder with its index, or a day with its
  \<^verbatim>\<open>today\<close> and \<^verbatim>\<open>selected\<close> marks. The two \<^verbatim>\<open>for\<close> loops push cells onto \<open>days\<close>.
\<close>

datatype cell = EmptyCell int | DayCell int bool bool

function empty_loop :: "jsnum \<Rightarrow> int \<Rightarrow> cell list \<Rightarrow> cell list" where
  "empty_loop firstDay i days =
     (if num_less (Num i) firstDay
      then empty_loop firstDay (i + 1) (days @ [EmptyCell i])
      else days)"
  by pat_completeness auto
termination
  by (relation "measure (\<lambda>(firstDay, i, days). case firstDay of NaN \<Rightarrow> 0 | Num n \<Rightarrow> nat (n - i))")
    (auto split: jsnum.splits)

function day_loop ::
  "zone \<Rightarrow> int \<Rightarrow> calendar_state \<Rightarrow> jsnum \<Rightarrow> int \<Rightarrow> cell list \<Rightarrow> cell list" where
  "day_loop z now st daysInMonth day days =
     (if num_le (Num day) daysInMonth
      then day_loop z now st daysInMonth (day + 1)
             (days @ [DayCell day (isToday z now st day) (isSelected z st day)])
      else days)"
  by pat_completeness auto
termination
  by (relation "measure (\<lambda>(z, now, st, daysInMonth, day, days).
        case daysInMonth of NaN \<Rightarrow> 0 | Num n \<Rightarrow> nat (n + 1 - day))")
    (auto split: jsnum.splits)

declare empty_loop.simps [simp del] day_loop.simps [simp del]

definition renderCalendar :: "zone \<Rightarrow> int \<Rightarrow> calendar_state \<Rightarrow> cell list" where
  "renderCalendar z now st =
     (let daysInMonth = getDaysInMonth z (currentDate st);
          firstDay = getFirstDayOfMonth z (currentDate st);
          days = empty_loop firstDay 0 []
      in day_loop z now st daysInMonth 1 days)"

subsection \<open>Fetching the events\<close>

text \<open>
  \<open>result\<close> is the outcome of \<^verbatim>\<open>api.get('/calendar/events')\<close>; a resolved call carries
  \<^verbatim>\<open>response.data\<close>, \<open>None\<close> when it is absent.
\<close>

definition fetchEvents :: "event list option outcome \<Rightarrow> calendar_state stmt" where
  "fetchEvents result =
     seq (exec (\<lambda>st. st\<lparr>loading := True\<rparr>))
       (try_finally
          (try_catch
             (await result (\<lambda>data.
                exec (\<lambda>st. st\<lparr>allEvents := (case data of None \<Rightarrow> [] | Some events \<Rightarrow> events)\<rparr>)))
             (\<lambda>error.
                seq (exec (\<lambda>st. st\<lparr>cal_console := cal_console st @
                             [LogError ''Failed to fetch calendar events:'' error]\<rparr>))
                    (exec (\<lambda>st. st\<lparr>allEvents := []\<rparr>))))
          (exec (\<lambda>st. st\<lparr>loading := False\<rparr>)))"

subsection \<open>Events of a day\<close>

text \<open>
  \<open>parse\<close> is \<^verbatim>\<open>Date.parse\<close>, the time value of \<^verbatim>\<open>new Date(string)\<close>: \<^verbatim>\<open>NaN\<close> for a string
  it does not read. The argument of \<open>getEventsForDate\<close> is \<open>None\<close> for \<^verbatim>\<open>null\<close>.
\<close>

definition dateYMD :: "zone \<Rightarrow> jsdate \<Rightarrow> string" where
  "dateYMD z d =
     ToString (getFullYear z d) @ ''-'' @
     padStart 2 CHR ''0'' (ToString (num_add (getMonth z d) 1)) @ ''-'' @
     padStart 2 CHR ''0'' (ToString (getDate z d))"

definition event_filter :: "zone \<Rightarrow> (string \<Rightarrow> jsnum) \<Rightarrow> jsdate \<Rightarrow> event \<Rightarrow> bool" where
  "event_filter z parse d e =
     (if truthy (start_date e) then start_date e = Some (dateYMD z d)
      else if truthy (start_dateTime e)
      then toDateString z (parse (the (start_dateTime e))) = toDateString z d
      else False)"

definition getEventsForDate ::
  "zone \<Rightarrow> (string \<Rightarrow> jsnum) \<Rightarrow> calendar_state \<Rightarrow> jsdate option \<Rightarrow> event list" where
  "getEventsForDate z parse st d =
     (case d of
        None \<Rightarrow> []
      | Some d' \<Rightarrow> filter (event_filter z parse d') (allEvents st))"

subsection \<open>Rendering the events of the selected day\<close>

text \<open>
  The children of one event's box, in document order. \<open>fmt\<close> is
  \<^verbatim>\<open>toLocaleTimeString([], {hour: '2-digit', minute: '2-digit'})\<close>, which depends on the locale.
\<close>

datatype element = Title string | StartTime string | AllDay

definition renderEvent :: "(jsdate \<Rightarrow> string) \<Rightarrow> (string \<Rightarrow> jsnum) \<Rightarrow> event \<Rightarrow> element list" where
  "renderEvent fmt parse e =
     [Title (if truthy (summary e) then the (summary e) else ''(No title)'')] @
     (if truthy (start_dateTime e) then [StartTime (fmt (parse (the (start_dateTime e))))] else []) @
     (if truthy (start_date e) then [AllDay] else [])"

datatype panel = LoadingEvents | EventBoxes "element list list" | NoEvents

definition renderEventsList ::
  "zone \<Rightarrow> (jsdate \<Rightarrow> string) \<Rightarrow> (string \<Rightarrow> jsnum) \<Rightarrow> calendar_state \<Rightarrow> panel" where
  "renderEventsList z fmt parse st =
     (let selectedDateEvents = getEventsForDate z parse st (selectedDate st) in
      if loading st then LoadingEvents
      else if length selectedDateEvents > 0
      then EventBoxes (map (renderEvent fmt parse) selectedDateEvents)
      else NoEvents)"

section \<open>The application shell (App.jsx)\<close>

record app_state =
  isAuthenticated :: bool
  userEmail :: string
  isCheckingAuth :: bool
  authError :: string
  app_console :: "log_entry list"

text \<open>\<^verbatim>\<open>x ?? fallback\<close>: the fallback only when \<open>x\<close> is missing; an empty string stands.\<close>

fun nullish_or :: "string option \<Rightarrow> string \<Rightarrow> string" where
  "nullish_or None fallback = fallback"
| "nullish_or (Some v) fallback = v"

text \<open>
  \<open>statusRes\<close> is the outcome of \<^verbatim>\<open>api.get('/auth/status')\<close>, carrying
  \<^verbatim>\<open>statusRes.data?.authenticated\<close> (\<open>None\<close> when missing); \<open>userRes\<close> is the outcome of
  \<^verbatim>\<open>api.get('/user/me')\<close>, carrying \<^verbatim>\<open>userRes.data?.email\<close>. The second call is only awaited
  when the first reports an authenticated session.

  An async function runs in the caller's turn up to its first \<^verbatim>\<open>await\<close> and goes on when
  the awaited call has settled. \<open>checkAuthStatus_begin\<close> is the part of
  \<^verbatim>\<open>checkAuthStatus\<close> before its first \<^verbatim>\<open>await\<close> (the two updates that open the function),
  \<open>checkAuthStatus_resume\<close> is the rest, from the awaited status call to the end, and
  \<open>checkAuthStatus\<close> is the whole function.
\<close>

definition checkAuthStatus_begin :: "app_state stmt" where
  "checkAuthStatus_begin =
     seq (exec (\<lambda>st. st\<lparr>isCheckingAuth := True\<rparr>))
         (exec (\<lambda>st. st\<lparr>authError := []\<rparr>))"

definition checkAuthStatus_resume ::
  "bool option outcome \<Rightarrow> string option outcome \<Rightarrow> app_state stmt" where
  "checkAuthStatus_resume statusRes userRes =
     try_finally
       (try_catch
          (await statusRes (\<lambda>authenticated.
             seq (exec (\<lambda>st. st\<lparr>app_console := app_console st @
                          [LogInfo ''Auth status response:'']\<rparr>))
            (seq (if authenticated = Some True
                  then try_catch
                         (await userRes (\<lambda>email.
                            seq (exec (\<lambda>st. st\<lparr>userEmail := nullish_or email []\<rparr>))
                           (seq (exec (\<lambda>st. st\<lparr>isAuthenticated := True\<rparr>))
                                ret)))
                         (\<lambda>userErr.
                            seq (exec (\<lambda>st. st\<lparr>app_console := app_console st @
                                         [LogError ''Fetching user profile failed:'' userErr]\<rparr>))
                                (exec (\<lambda>st. st\<lparr>authError :=
                                         nullish_or (detail userErr) ''Unable to load user profile''\<rparr>)))
                  else skip)
            (seq (exec (\<lambda>st. st\<lparr>isAuthenticated := False\<rparr>))
                 (exec (\<lambda>st. st\<lparr>userEmail := []\<rparr>))))))
          (\<lambda>error.
             seq (exec (\<lambda>st. st\<lparr>app_console := app_console st @
                          [LogError ''Auth status check failed:'' error]\<rparr>))
            (seq (exec (\<lambda>st. st\<lparr>isAuthenticated := False\<rparr>))
            (seq (exec (\<lambda>st. st\<lparr>userEmail := []\<rparr>))
                 (exec (\<lambda>st. st\<lparr>authError :=
                          nullish_or (detail error) ''Authentication check failed''\<rparr>))))))
       (exec (\<lambda>st. st\<lparr>isCheckingAuth := False\<rparr>))"

definition checkAuthStatus :: "bool option outcome \<Rightarrow> string option outcome \<Rightarrow> app_state stmt" where
  "checkAuthStatus statusRes userRes =
     seq checkAuthStatus_begin (checkAuthStatus_resume statusRes userRes)"

text \<open>
  \<open>logoutRes\<close> is the outcome of \<^verbatim>\<open>api.post('/auth/logout')\<close>. The \<^verbatim>\<open>finally\<close> block calls
  \<^verbatim>\<open>checkAuthStatus()\<close> and does not await it: the call runs the status check up to its
  first \<^verbatim>\<open>await\<close> and returns, and \<open>handleLogout\<close> is over, with the status request in
  flight. \<open>handleLogout logoutRes\<close> is the function up to that point.
  \<open>handleLogout_recheck\<close> goes on to the end of the status check that it started, which
  meets the outcomes \<open>statusRes\<close> and \<open>userRes\<close>.
\<close>

definition handleLogout :: "unit outcome \<Rightarrow> app_state stmt" where
  "handleLogout logoutRes =
     try_finally
       (try_catch
          (await logoutRes (\<lambda>_. skip))
          (\<lambda>error.
             seq (exec (\<lambda>st. st\<lparr>app_console := app_console st @
                          [LogError ''Logout failed:'' error]\<rparr>))
                 (exec (\<lambda>st. st\<lparr>authError := nullish_or (detail error) ''Logout failed''\<rparr>))))
       (seq (exec (\<lambda>st. st\<lparr>isAuthenticated := False\<rparr>))
       (seq (exec (\<lambda>st. st\<lparr>userEmail := []\<rparr>))
            (call_unawaited checkAuthStatus_begin)))"

definition handleLogout_recheck ::
  "unit outcome \<Rightarrow> bool option outcome \<Rightarrow> string option outcome \<Rightarrow> app_state stmt" where
  "handleLogout_recheck logoutRes statusRes userRes =
     seq (handleLogout logoutRes) (checkAuthStatus_resume statusRes userRes)"

section \<open>Reading date strings back, and the rule of a day\<close>

text \<open>
  Proof vocabulary for strings: the number that a string of decimal digits denotes, the
  month that a month name denotes, and the year that the year part of a date string
  denotes. They read back what \<open>nat_digits\<close>, \<open>MonthName\<close> and \<open>DateString\<close> print.
\<close>

definition digit_val :: "char \<Rightarrow> nat" where
  "digit_val c = of_char c - 48"

definition digits_val :: "string \<Rightarrow> nat" where
  "digits_val s = foldl (\<lambda>a c. 10 * a + digit_val c) 0 s"

definition month_of_name :: "string \<Rightarrow> int" where
  "month_of_name s =
     (if s = ''Jan'' then 0 else if s = ''Feb'' then 1 else if s = ''Mar'' then 2
      else if s = ''Apr'' then 3 else if s = ''May'' then 4 else if s = ''Jun'' then 5
      else if s = ''Jul'' then 6 else if s = ''Aug'' then 7 else if s = ''Sep'' then 8
      else if s = ''Oct'' then 9 else if s = ''Nov'' then 10 else 11)"

definition year_of_string :: "string \<Rightarrow> int" where
  "year_of_string s =
     (if hd s = CHR ''-'' then - int (digits_val (tl s)) else int (digits_val s))"

text \<open>
  The local calendar date of a Date object: year, month and day of the month, and none
  for an invalid date.
\<close>

fun local_date :: "zone \<Rightarrow> jsdate \<Rightarrow> (int \<times> int \<times> int) option" where
  "local_date z NaN = None"
| "local_date z (Num t) =
     Some (YearFromTime (LocalTime z t), MonthFromTime (LocalTime z t),
           DateFromTime (LocalTime z t))"

text \<open>
  The key of a calendar date as the specification writes it, \<^verbatim>\<open>YYYY-MM-DD\<close>: four digits
  of the year, two of the month counted from 1, two of the day. It is stated digit by
  digit, for a year from 0 to 9999 and the month numbered from 0 as \<open>local_date\<close> gives it.
\<close>

fun ymd_key :: "int \<times> int \<times> int \<Rightarrow> string" where
  "ymd_key (y, m, d) =
     [digit_char (nat y div 1000 mod 10), digit_char (nat y div 100 mod 10),
      digit_char (nat y div 10 mod 10), digit_char (nat y mod 10), CHR ''-'',
      digit_char (nat (m + 1) div 10 mod 10), digit_char (nat (m + 1) mod 10), CHR ''-'',
      digit_char (nat d div 10 mod 10), digit_char (nat d mod 10)]"

text \<open>
  The rule for the events of a day whose local calendar date is \<open>ymd\<close>, first as the
  specification words it: an event matches when its all-day \<^verbatim>\<open>start.date\<close> is the key of
  the day, or its timed \<^verbatim>\<open>start.dateTime\<close> is an instant of that local calendar date. Then
  the rule with the precedence that the filter gives to \<^verbatim>\<open>start.date\<close>: the timed rule
  applies only to an event without a \<^verbatim>\<open>start.date\<close>.
\<close>

definition stated_day_rule ::
  "zone \<Rightarrow> (string \<Rightarrow> jsnum) \<Rightarrow> int \<times> int \<times> int \<Rightarrow> event \<Rightarrow> bool" where
  "stated_day_rule z parse ymd e \<longleftrightarrow>
     start_date e = Some (ymd_key ymd) \<or>
     truthy (start_dateTime e) \<and>
       local_date z (parse (the (start_dateTime e))) = Some ymd"

definition day_rule ::
  "zone \<Rightarrow> (string \<Rightarrow> jsnum) \<Rightarrow> int \<times> int \<times> int \<Rightarrow> event \<Rightarrow> bool" where
  "day_rule z parse ymd e \<longleftrightarrow>
     start_date e = Some (ymd_key ymd) \<or>
     (if truthy (start_date e) then False
      else truthy (start_dateTime e) \<and>
        local_date z (parse (the (start_dateTime e))) = Some ymd)"

section \<open>Time zones of the examples\<close>

text \<open>
  \<open>utc_zone\<close> is the zone UTC. \<open>new_york_2024\<close> is the zone of New York around the end of
  daylight saving time on 3 November 2024: four hours behind UTC up to 06:00 UTC of that
  day, five hours from then on; a local time up to 02:00 of that day is read with the
  offset before the change. It is that zone for the instants of autumn 2024 only.
\<close>

definition utc_zone :: zone where
  "utc_zone = \<lparr>utc_offset = (\<lambda>t. 0), local_offset = (\<lambda>x. 0)\<rparr>"

definition new_york_2024 :: zone where
  "new_york_2024 =
     \<lparr>utc_offset = (\<lambda>t. if t < 1730613600000 then - 14400000 else - 18000000),
      local_offset = (\<lambda>x. if x < 1730599200000 then - 14400000 else - 18000000)\<rparr>"

section \<open>The civil calendar\<close>

text \<open>
  The Gregorian calendar as the specification speaks of it, stated on its own terms and not
  through the Date arithmetic above: the leap-year rule, the lengths of the months, and
  the day of the week by Zeller's congruence. Months are numbered from 0 (January) and
  week days from 0 (Sunday), as the component numbers them. In Zeller's congruence January
  and February count as months 13 and 14 of the year before, \<open>K\<close> is the year of the
  century and \<open>J\<close> the century; its result counts from Saturday, hence the shift by 6.
\<close>

definition civil_leap_year :: "int \<Rightarrow> bool" where
  "civil_leap_year y \<longleftrightarrow> y mod 4 = 0 \<and> (y mod 100 \<noteq> 0 \<or> y mod 400 = 0)"

definition civil_days_in_month :: "int \<Rightarrow> int \<Rightarrow> int" where
  "civil_days_in_month y m =
     (if m = 1 then (if civil_leap_year y then 29 else 28)
      else if m = 3 \<or> m = 5 \<or> m = 8 \<or> m = 10 then 30
      else 31)"

definition civil_weekday :: "int \<Rightarrow> int \<Rightarrow> int \<Rightarrow> int" where
  "civil_weekday y m d =
     (let a = (if m < 2 then 1 else 0);
          Y = y - a;
          M = m + 1 + 12 * a;
          K = Y mod 100;
          J = Y div 100
      in (d + (13 * (M + 1)) div 5 + K + K div 4 + J div 4 + 5 * J + 6) mod 7)"

section \<open>Properties of the built-in Date\<close>

subsection \<open>Division by a positive constant\<close>

lemma div_step:
  fixes x n :: int
  assumes "0 < n"
  shows "(x + 1) div n = x div n + (if (x + 1) mod n = 0 then 1 else 0)"
proof -
  define q r where "q = x div n" and "r = x mod n"
  have x: "x = n * q + r" and r: "0 \<le> r" "r < n"
    using assms by (simp_all add: q_def r_def)
  show ?thesis
  proof (cases "r + 1 = n")
    case True
    then have e: "x + 1 = n * (q + 1) + 0" using x by (simp add: algebra_simps)
    have "(x + 1) div n = q + 1" "(x + 1) mod n = 0"
      using int_div_pos_eq [OF e] int_mod_pos_eq [OF e] assms by simp_all
    then show ?thesis by (simp add: q_def)
  next
    case False
    then have e: "x + 1 = n * q + (r + 1)" and r': "0 \<le> r + 1" "r + 1 < n"
      using x r by simp_all
    have "(x + 1) div n = q" "(x + 1) mod n = r + 1"
      using int_div_pos_eq [OF e r'] int_mod_pos_eq [OF e r'] by simp_all
    then show ?thesis using r by (simp add: q_def)
  qed
qed

lemma mod_sub_mult: "(y - n * k) mod n = y mod n" for y n k :: int
  using mod_mult_self2 [of y n "- k"] by simp

lemma div_sub_mult: "n \<noteq> 0 \<Longrightarrow> (y - n * k) div n = y div n - k" for y n k :: int
  using div_mult_self2 [of n y "- k"] by simp

lemma div_lo_hi:
  fixes x n :: int
  assumes n: "0 < n"
  shows "n * (x div n) \<le> x" "x - (n - 1) \<le> n * (x div n)"
proof -
  define q where "q = n * (x div n)"
  have "q + x mod n = x" unfolding q_def by (rule mult_div_mod_eq)
  then have "q \<le> x \<and> x - (n - 1) \<le> q"
    using pos_mod_bound [OF n, of x] pos_mod_sign [OF n, of x] by linarith
  then show "n * (x div n) \<le> x" "x - (n - 1) \<le> n * (x div n)"
    by (simp_all add: q_def)
qed

subsection \<open>Years\<close>

lemma step4: "(y - 1968) div 4 = (y - 1969) div 4 + (if y mod 4 = 0 then 1 else 0)" for y :: int
  using div_step [of 4 "y - 1969"] mod_sub_mult [of y 4 492] by simp

lemma step100:
  "(y - 1900) div 100 = (y - 1901) div 100 + (if y mod 100 = 0 then 1 else 0)" for y :: int
  using div_step [of 100 "y - 1901"] mod_sub_mult [of y 100 19] by simp

lemma step400:
  "(y - 1600) div 400 = (y - 1601) div 400 + (if y mod 400 = 0 then 1 else 0)" for y :: int
  using div_step [of 400 "y - 1601"] mod_sub_mult [of y 400 4] by simp

lemma mod100_mod4: "y mod 100 = 0 \<Longrightarrow> y mod 4 = 0" for y :: int
  using mod_mod_cancel [of 4 100 y] by simp

lemma mod400_mod100: "y mod 400 = 0 \<Longrightarrow> y mod 100 = 0" for y :: int
  using mod_mod_cancel [of 100 400 y] by simp

lemma DayFromYear_Suc: "DayFromYear (y + 1) = DayFromYear y + DaysInYear y"
proof -
  have a: "y + 1 - 1969 = y - 1968" "y + 1 - 1901 = y - 1900" "y + 1 - 1601 = y - 1600"
    by simp_all
  show ?thesis
    unfolding DayFromYear_def DaysInYear_def a step4 step100 step400
    using mod100_mod4 [of y] mod400_mod100 [of y] by auto
qed

lemma DaysInYear_cases: "DaysInYear y = 365 \<or> DaysInYear y = 366"
  by (simp add: DaysInYear_def)

lemma DayFromYear_mono: "a \<le> b \<Longrightarrow> DayFromYear a \<le> DayFromYear b"
proof (induction b rule: int_ge_induct)
  case base
  show ?case by simp
next
  case (step i)
  have "DayFromYear i \<le> DayFromYear (i + 1)"
    using DayFromYear_Suc [of i] DaysInYear_cases [of i] by linarith
  with step show ?case by linarith
qed

lemma DayFromYear_bounds:
  "146097 * (y - 1970) - 506 \<le> 400 * DayFromYear y"
  "400 * DayFromYear y \<le> 146097 * (y - 1970) + 589"
proof -
  define a b c where "a = (y - 1969) div 4" and "b = (y - 1901) div 100"
    and "c = (y - 1601) div 400"
  have h: "4 * a \<le> y - 1969" "y - 1969 - 3 \<le> 4 * a"
       "100 * b \<le> y - 1901" "y - 1901 - 99 \<le> 100 * b"
       "400 * c \<le> y - 1601" "y - 1601 - 399 \<le> 400 * c"
    using div_lo_hi [of 4 "y - 1969"] div_lo_hi [of 100 "y - 1901"] div_lo_hi [of 400 "y - 1601"]
    by (simp_all add: a_def b_def c_def)
  have e: "DayFromYear y = 365 * (y - 1970) + a - b + c"
    by (simp add: DayFromYear_def a_def b_def c_def)
  have "100 * (y - 1972) \<le> 400 * a" "400 * b \<le> 4 * (y - 1901)" "y - 2000 \<le> 400 * c"
    using h by simp_all
  then show "146097 * (y - 1970) - 506 \<le> 400 * DayFromYear y"
    unfolding e by simp
  have "400 * a \<le> 100 * (y - 1969)" "4 * (y - 2000) \<le> 400 * b" "400 * c \<le> y - 1601"
    using h by simp_all
  then show "400 * DayFromYear y \<le> 146097 * (y - 1970) + 589"
    unfolding e by simp
qed

text \<open>The estimate of \<open>YearFromDay\<close> is off by at most one year.\<close>

lemma year_estimate:
  "DayFromYear (1970 + (d * 400) div 146097 - 1) \<le> d"
  "d < DayFromYear (1970 + (d * 400) div 146097 + 2)"
proof -
  define k where "k = (d * 400) div 146097"
  have q: "146097 * k \<le> d * 400" "d * 400 - 146096 \<le> 146097 * k"
    using div_lo_hi [of 146097 "d * 400"] by (simp_all add: k_def)
  define u v where "u = DayFromYear (1970 + k - 1)" and "v = DayFromYear (1970 + k + 2)"
  have "400 * u \<le> 146097 * (1970 + k - 1 - 1970) + 589"
    unfolding u_def by (rule DayFromYear_bounds(2))
  then have "400 * u \<le> 400 * d" using q by simp
  then have "u \<le> d" by simp
  then show "DayFromYear (1970 + (d * 400) div 146097 - 1) \<le> d"
    by (simp add: u_def k_def)
  have "146097 * (1970 + k + 2 - 1970) - 506 \<le> 400 * v"
    unfolding v_def by (rule DayFromYear_bounds(1))
  then have "400 * d < 400 * v" using q by simp
  then have "d < v" by simp
  then show "d < DayFromYear (1970 + (d * 400) div 146097 + 2)"
    by (simp add: v_def k_def)
qed

lemma YearFromDay_bounds:
  "DayFromYear (YearFromDay d) \<le> d" "d < DayFromYear (YearFromDay d + 1)"
  using year_estimate [of d] by (auto simp: YearFromDay_def Let_def)

lemma YearFromDay_unique:
  assumes "DayFromYear y \<le> d" "d < DayFromYear (y + 1)"
  shows "YearFromDay d = y"
proof (rule ccontr)
  assume "YearFromDay d \<noteq> y"
  then consider "YearFromDay d + 1 \<le> y" | "y + 1 \<le> YearFromDay d" by linarith
  then show False
  proof cases
    case 1
    from DayFromYear_mono [OF 1] YearFromDay_bounds(2) [of d] assms show False by linarith
  next
    case 2
    from DayFromYear_mono [OF 2] YearFromDay_bounds(1) [of d] assms show False by linarith
  qed
qed

lemma Day_le_iff: "d \<le> Day t \<longleftrightarrow> msPerDay * d \<le> t"
proof -
  define q where "q = t div 86400000"
  have q: "86400000 * q \<le> t" "t - 86399999 \<le> 86400000 * q"
    using div_lo_hi [of 86400000 t] by (simp_all add: q_def)
  have "d \<le> q \<longleftrightarrow> 86400000 * d \<le> t"
  proof
    assume "d \<le> q"
    then have "86400000 * d \<le> 86400000 * q" by simp
    with q(1) show "86400000 * d \<le> t" by linarith
  next
    assume le: "86400000 * d \<le> t"
    show "d \<le> q"
    proof (rule ccontr)
      assume "\<not> d \<le> q"
      then have "q + 1 \<le> d" by simp
      then have "86400000 * (q + 1) \<le> 86400000 * d" by (simp only: mult_le_cancel_left_pos) 
      with le q(2) show False by simp
    qed
  qed
  then show ?thesis by (simp add: Day_def msPerDay_def q_def)
qed

text \<open>
  \<open>YearFromTime t\<close> is the year ECMAScript defines: the largest \<open>y\<close> whose
  \<open>TimeFromYear y\<close> is at most \<open>t\<close>.
\<close>

lemma YearFromTime_largest:
  "TimeFromYear (YearFromTime t) \<le> t"
  "TimeFromYear y \<le> t \<Longrightarrow> y \<le> YearFromTime t"
proof -
  show "TimeFromYear (YearFromTime t) \<le> t"
    using YearFromDay_bounds(1) [of "Day t"]
    by (simp add: TimeFromYear_def YearFromTime_def Day_le_iff)
  assume "TimeFromYear y \<le> t"
  then have le: "DayFromYear y \<le> Day t"
    by (simp add: TimeFromYear_def Day_le_iff)
  show "y \<le> YearFromTime t"
  proof (rule ccontr)
    assume "\<not> y \<le> YearFromTime t"
    then have "YearFromDay (Day t) + 1 \<le> y" by (simp add: YearFromTime_def)
    from DayFromYear_mono [OF this] YearFromDay_bounds(2) [of "Day t"] le
    show False by linarith
  qed
qed

subsection \<open>Months and dates\<close>

lemma leap_iff: "DaysInYear y = 366 \<longleftrightarrow> civil_leap_year y"
  by (simp add: DaysInYear_def civil_leap_year_def)

lemma month_cases:
  fixes mn :: int
  assumes "0 \<le> mn" "mn \<le> 11"
  obtains "mn = 0" | "mn = 1" | "mn = 2" | "mn = 3" | "mn = 4" | "mn = 5"
    | "mn = 6" | "mn = 7" | "mn = 8" | "mn = 9" | "mn = 10" | "mn = 11"
proof -
  have "mn = 0 \<or> mn = 1 \<or> mn = 2 \<or> mn = 3 \<or> mn = 4 \<or> mn = 5 \<or> 6 \<le> mn"
    using assms(1) by linarith
  moreover have "6 \<le> mn \<Longrightarrow> mn = 6 \<or> mn = 7 \<or> mn = 8 \<or> mn = 9 \<or> mn = 10 \<or> mn = 11"
    using assms(2) by linarith
  ultimately show ?thesis using that by blast
qed

lemma MakeDay_in_year:
  assumes mn: "0 \<le> mn" "mn \<le> 11"
  shows "MakeDay ym mn dt =
           DayFromYear ym + DaysBeforeMonth (if DaysInYear ym = 366 then 1 else 0) mn + dt - 1"
  using mn by (simp add: MakeDay_def Let_def)

text \<open>
  The day that \<open>MakeDay\<close> returns for a date of month \<open>mn\<close> of year \<open>ym\<close> has that year,
  month and date. With \<open>dt = 1\<close> this is the property by which ECMAScript defines
  \<open>MakeDay\<close>.
\<close>

lemma MakeDay_fields:
  assumes mn: "0 \<le> mn" "mn \<le> 11"
    and dt: "1 \<le> dt" "dt \<le> civil_days_in_month ym mn"
    and t: "Day t = MakeDay ym mn dt"
  shows "YearFromTime t = ym" "MonthFromTime t = mn" "DateFromTime t = dt"
proof -
  define l :: int where "l = (if DaysInYear ym = 366 then 1 else 0)"
  define w where "w = DaysBeforeMonth l mn + dt - 1"
  have l01: "l = 0 \<or> l = 1" by (simp add: l_def)
  have diy: "DaysInYear ym = 365 + l"
    using DaysInYear_cases [of ym] by (auto simp: l_def)
  have len: "dt \<le> (if mn = 1 then 28 + l else if mn = 3 \<or> mn = 5 \<or> mn = 8 \<or> mn = 10 then 30 else 31)"
    using dt(2) by (simp add: civil_days_in_month_def l_def leap_iff split: if_splits)
  have day: "Day t = DayFromYear ym + w"
    using t MakeDay_in_year [OF mn, of ym dt] by (simp add: l_def w_def)
  have range: "0 \<le> w \<and> w < 365 + l"
    using mn
  proof (cases rule: month_cases)
  qed (use dt(1) len l01 in \<open>auto simp: w_def DaysBeforeMonth_def\<close>)
  have "YearFromDay (Day t) = ym"
  proof (rule YearFromDay_unique)
    show "DayFromYear ym \<le> Day t" using range day by simp
    show "Day t < DayFromYear (ym + 1)"
      using range day by (simp add: DayFromYear_Suc diy)
  qed
  then show y: "YearFromTime t = ym" by (simp add: YearFromTime_def)
  have dwy: "DayWithinYear t = w" by (simp add: DayWithinYear_def y day)
  have il: "InLeapYear t = l" by (simp add: InLeapYear_def y l_def)
  show m: "MonthFromTime t = mn"
    unfolding MonthFromTime_def Let_def dwy il
    using mn
  proof (cases rule: month_cases)
  qed (use dt(1) len l01 in \<open>auto simp: w_def DaysBeforeMonth_def\<close>)
  show "DateFromTime t = dt"
    unfolding DateFromTime_def Let_def dwy il m
    using mn
  proof (cases rule: month_cases)
  qed (use l01 in \<open>auto simp: w_def DaysBeforeMonth_def\<close>)
qed

lemma MakeDay_norm: "MakeDay y m dt = MakeDay (y + m div 12) (m mod 12) dt"
  by (simp add: MakeDay_def Let_def)

text \<open>Day 0 of the next month is the last day of the month.\<close>

lemma MakeDay_last_day:
  assumes m: "0 \<le> m" "m \<le> 11"
  shows "MakeDay y (m + 1) 0 = MakeDay y m (civil_days_in_month y m)"
proof -
  define l :: int where "l = (if DaysInYear y = 366 then 1 else 0)"
  have diy: "DaysInYear y = 365 + l"
    using DaysInYear_cases [of y] by (auto simp: l_def)
  have len: "civil_days_in_month y m =
      (if m = 1 then 28 + l else if m = 3 \<or> m = 5 \<or> m = 8 \<or> m = 10 then 30 else 31)"
    by (simp add: civil_days_in_month_def l_def leap_iff)
  have rhs: "MakeDay y m (civil_days_in_month y m) =
      DayFromYear y + DaysBeforeMonth l m + civil_days_in_month y m - 1"
    using MakeDay_in_year [OF m, of y] by (simp add: l_def)
  show ?thesis
  proof (cases "m = 11")
    case True
    have "MakeDay y 12 0 = DayFromYear (y + 1) - 1"
      by (simp add: MakeDay_def Let_def DaysBeforeMonth_def)
    moreover have "civil_days_in_month y 11 = 31"
      by (simp add: civil_days_in_month_def)
    ultimately show ?thesis
      using True rhs by (simp add: DayFromYear_Suc diy DaysBeforeMonth_def)
  next
    case False
    then have m': "0 \<le> m + 1" "m + 1 \<le> 11" using m by simp_all
    have lhs: "MakeDay y (m + 1) 0 = DayFromYear y + DaysBeforeMonth l (m + 1) - 1"
      using MakeDay_in_year [OF m', of y 0] by (simp add: l_def)
    from m show ?thesis
    proof (cases rule: month_cases)
    qed (use False lhs rhs len in \<open>simp_all add: DaysBeforeMonth_def\<close>)
  qed
qed

subsection \<open>Week days\<close>

lemma mod7_shift:
  fixes x y a b :: int
  assumes "(a - b) mod 7 = 0" and "x mod 7 = y mod 7"
  shows "(x + a) mod 7 = (y + b) mod 7"
proof -
  have "7 dvd a - b" "7 dvd x - y"
    using assms by (simp_all add: mod_eq_dvd_iff mod_eq_0_iff_dvd)
  then have "7 dvd (x - y) + (a - b)" by (simp only: dvd_add)
  moreover have "(x - y) + (a - b) = (x + a) - (y + b)" by simp
  ultimately show ?thesis by (simp only: mod_eq_dvd_iff)
qed

text \<open>
  The day number of 1 January of the year after \<open>Y\<close>, by the century \<open>J\<close> and the year
  of the century \<open>K\<close> of \<open>Y\<close>.
\<close>

lemma DayFromYear_century:
  "DayFromYear (Y + 1) =
     36524 * (Y div 100) + 365 * (Y mod 100) + (Y mod 100) div 4 + (Y div 100) div 4 - 719162"
proof -
  define J K where "J = Y div 100" and "K = Y mod 100"
  have Y: "Y = K + 4 * (25 * J)"
    using div_mult_mod_eq [of Y 100] by (simp add: J_def K_def)
  have d4: "Y div 4 = 25 * J + K div 4"
    using div_mult_self2 [of 4 K "25 * J"] Y by simp
  have d400: "Y div 400 = J div 4"
    using zdiv_zmult2_eq [of 4 Y 100] by (simp add: J_def)
  have s: "(Y - 1968) div 4 = Y div 4 - 492" "(Y - 1900) div 100 = Y div 100 - 19"
    "(Y - 1600) div 400 = Y div 400 - 4"
    using div_sub_mult [of 4 Y 492] div_sub_mult [of 100 Y 19] div_sub_mult [of 400 Y 4]
    by simp_all
  have a: "Y + 1 - 1969 = Y - 1968" "Y + 1 - 1901 = Y - 1900" "Y + 1 - 1601 = Y - 1600"
    "Y + 1 - 1970 = Y - 1969"
    by simp_all
  have "DayFromYear (Y + 1) = 365 * (Y - 1969) + (Y div 4 - 492) - (J - 19) + (J div 4 - 4)"
    unfolding DayFromYear_def a s d400 by (simp add: J_def)
  also have "\<dots> = 365 * (Y - 1969) + (25 * J + K div 4 - 492) - (J - 19) + (J div 4 - 4)"
    by (simp only: d4)
  also have "365 * (Y - 1969) = 365 * (K + 4 * (25 * J) - 1969)"
    using Y by simp
  finally have "DayFromYear (Y + 1) = 36524 * J + 365 * K + K div 4 + J div 4 - 719162"
    by simp
  then show ?thesis unfolding J_def K_def .
qed

lemma new_year_weekday:
  "(DayFromYear (Y + 1) + 4) mod 7 =
     (Y mod 100 + (Y mod 100) div 4 + (Y div 100) div 4 + 5 * (Y div 100) + 1) mod 7"
proof -
  define J K J4 K4 where "J = Y div 100" and "K = Y mod 100"
    and "J4 = (Y div 100) div 4" and "K4 = (Y mod 100) div 4"
  have c: "DayFromYear (Y + 1) = 36524 * J + 365 * K + K4 + J4 - 719162"
    unfolding J_def K_def J4_def K4_def by (rule DayFromYear_century)
  have "DayFromYear (Y + 1) + 4 = (K + K4 + J4 + 5 * J + 1) + 7 * (5217 * J + 52 * K - 102737)"
    unfolding c by simp
  then have "(DayFromYear (Y + 1) + 4) mod 7 = (K + K4 + J4 + 5 * J + 1) mod 7"
    by (simp only: mod_mult_self2)
  then show ?thesis unfolding J_def K_def J4_def K4_def .
qed

text \<open>The week day of the first of a month is the one Zeller's congruence gives.\<close>

lemma first_weekday:
  assumes m: "0 \<le> m" "m \<le> 11"
  shows "(MakeDay y m 1 + 4) mod 7 = civil_weekday y m 1"
proof -
  define l :: int where "l = (if DaysInYear y = 366 then 1 else 0)"
  define a :: int where "a = (if m < 2 then 1 else 0)"
  define J K J4 K4 where "J = (y - a) div 100" and "K = (y - a) mod 100"
    and "J4 = ((y - a) div 100) div 4" and "K4 = ((y - a) mod 100) div 4"
  define Z where "Z = K + K4 + J4 + 5 * J + 1"
  define q where "q = (13 * (m + 1 + 12 * a + 1)) div 5"
  define e where "e = (if m < 2 then DaysBeforeMonth l m else DaysBeforeMonth l m - 365 - l)"
  have diy: "DaysInYear y = 365 + l"
    using DaysInYear_cases [of y] by (auto simp: l_def)
  have md: "MakeDay y m 1 = DayFromYear y + DaysBeforeMonth l m"
    using MakeDay_in_year [OF m, of y 1] by (simp add: l_def)
  have Zm: "(DayFromYear (y - a + 1) + 4) mod 7 = Z mod 7"
    unfolding Z_def J_def K_def J4_def K4_def
    using new_year_weekday [of "y - a"] by (simp only: add.assoc add.commute add.left_commute)
  have eb: "(e - (6 + q)) mod 7 = 0"
    using m
  proof (cases rule: month_cases)
  qed (simp_all add: e_def q_def a_def DaysBeforeMonth_def)
  have lhs: "MakeDay y m 1 + 4 = (DayFromYear (y - a + 1) + 4) + e"
  proof (cases "m < 2")
    case True
    then show ?thesis by (simp add: md e_def a_def)
  next
    case False
    then show ?thesis by (simp add: md e_def a_def DayFromYear_Suc diy)
  qed
  have "civil_weekday y m 1 = (1 + q + K + K4 + J4 + 5 * J + 6) mod 7"
    unfolding civil_weekday_def Let_def q_def J_def K_def J4_def K4_def a_def ..
  also have "1 + q + K + K4 + J4 + 5 * J + 6 = Z + (6 + q)"
    unfolding Z_def by (simp only: add.assoc add.commute add.left_commute)
  finally have rhs: "civil_weekday y m 1 = (Z + (6 + q)) mod 7" .
  show ?thesis
    unfolding lhs rhs by (rule mod7_shift [OF eb Zm])
qed

subsection \<open>Dates built from a year, a month and a date\<close>

lemma Day_of_midnight: "Day (d * msPerDay) = d"
  by (simp add: Day_def msPerDay_def)

lemma MonthFromTime_range: "0 \<le> MonthFromTime t \<and> MonthFromTime t \<le> 11"
  by (simp add: MonthFromTime_def Let_def)

lemma civil_days_in_month_range: "28 \<le> civil_days_in_month y m \<and> civil_days_in_month y m \<le> 31"
  by (simp add: civil_days_in_month_def)

lemma DayFromYear_first: "DayFromYear (- 271820) = - 99999744"
  by (simp add: DayFromYear_def)

lemma DayFromYear_last: "DayFromYear 275760 = 99999744"
  by (simp add: DayFromYear_def)

text \<open>A date of a year from -271820 to 275759 is a day inside the range of time values.\<close>

lemma MakeDay_range:
  assumes mn: "0 \<le> mn" "mn \<le> 11"
    and dt: "1 \<le> dt" "dt \<le> civil_days_in_month ym mn"
    and ym: "- 271820 \<le> ym" "ym \<le> 275759"
  shows "- 99999744 \<le> MakeDay ym mn dt" "MakeDay ym mn dt < 99999744"
proof -
  define D where "D = MakeDay ym mn dt"
  have "Day (D * msPerDay) = MakeDay ym mn dt"
    by (simp add: Day_of_midnight D_def)
  from MakeDay_fields(1) [OF mn dt this]
  have "YearFromDay D = ym"
    by (simp add: YearFromTime_def Day_of_midnight)
  with YearFromDay_bounds [of D]
  have b: "DayFromYear ym \<le> D" "D < DayFromYear (ym + 1)"
    by simp_all
  have "DayFromYear (- 271820) \<le> DayFromYear ym"
    by (rule DayFromYear_mono) (rule ym(1))
  with b(1) show "- 99999744 \<le> MakeDay ym mn dt"
    by (simp add: DayFromYear_first D_def)
  have "ym + 1 \<le> 275760" using ym(2) by simp
  then have "DayFromYear (ym + 1) \<le> DayFromYear 275760"
    by (rule DayFromYear_mono)
  with b(2) show "MakeDay ym mn dt < 99999744"
    by (simp add: DayFromYear_last D_def)
qed

lemma TimeClip_midnight:
  assumes D: "- 99999744 \<le> D" "D < 99999744" and k: "keeps_midnight z D"
  shows "TimeClip (UTC z (D * msPerDay)) = Num (UTC z (D * msPerDay))"
proof -
  define x where "x = D * 86400000"
  define c where "c = local_offset z x"
  have "- 99999744 * 86400000 \<le> D * 86400000" "D * 86400000 \<le> 99999743 * 86400000"
    using D by simp_all
  then have "- 8639977881600000 \<le> x" "x \<le> 8639977795200000"
    by (simp_all add: x_def)
  moreover have "- 86400000 \<le> c" "c \<le> 86400000"
    using k by (simp_all add: keeps_midnight_def msPerDay_def abs_le_iff c_def x_def)
  ultimately have "\<bar>x - c\<bar> \<le> 8640000000000000"
    by linarith
  then show ?thesis
    by (simp add: TimeClip_def UTC_def msPerDay_def x_def c_def)
qed

text \<open>
  \<^verbatim>\<open>new Date(y, M, dt)\<close> for a year outside 0 to 99, when the day it names is the date
  \<open>dt'\<close> of month \<open>mn\<close> of year \<open>ym\<close> and the zone keeps the midnight of that day: the
  date is valid, and its local fields are those.
\<close>

lemma newDate3_fields:
  assumes y: "y < 0 \<or> 99 < y"
    and day: "MakeDay y M dt = MakeDay ym mn dt'"
    and mn: "0 \<le> mn" "mn \<le> 11"
    and dt: "1 \<le> dt'" "dt' \<le> civil_days_in_month ym mn"
    and ym: "- 271820 \<le> ym" "ym \<le> 275759"
    and k: "keeps_midnight z (MakeDay ym mn dt')"
  shows "newDate3 z (Num y) (Num M) (Num dt) = Num (UTC z (MakeDay ym mn dt' * msPerDay))"
    and "getFullYear z (newDate3 z (Num y) (Num M) (Num dt)) = Num ym"
    and "getMonth z (newDate3 z (Num y) (Num M) (Num dt)) = Num mn"
    and "getDate z (newDate3 z (Num y) (Num M) (Num dt)) = Num dt'"
    and "getDay z (newDate3 z (Num y) (Num M) (Num dt)) = Num ((MakeDay ym mn dt' + 4) mod 7)"
proof -
  define D where "D = MakeDay ym mn dt'"
  have yr: "(if 0 \<le> y \<and> y \<le> 99 then 1900 + y else y) = y"
    using y by auto
  have "newDate3 z (Num y) (Num M) (Num dt) = TimeClip (UTC z (D * msPerDay))"
    by (simp add: yr day D_def MakeDate_def MakeTime_def)
  also have "\<dots> = Num (UTC z (D * msPerDay))"
    using MakeDay_range [OF mn dt ym] k unfolding D_def by (rule TimeClip_midnight)
  finally show v: "newDate3 z (Num y) (Num M) (Num dt) = Num (UTC z (MakeDay ym mn dt' * msPerDay))"
    by (simp add: D_def)
  have d: "Day (LocalTime z (UTC z (D * msPerDay))) = MakeDay ym mn dt'"
    using k by (simp add: keeps_midnight_def D_def)
  show "getFullYear z (newDate3 z (Num y) (Num M) (Num dt)) = Num ym"
    unfolding v using MakeDay_fields(1) [OF mn dt d] by (simp add: D_def)
  show "getMonth z (newDate3 z (Num y) (Num M) (Num dt)) = Num mn"
    unfolding v using MakeDay_fields(2) [OF mn dt d] by (simp add: D_def)
  show "getDate z (newDate3 z (Num y) (Num M) (Num dt)) = Num dt'"
    unfolding v using MakeDay_fields(3) [OF mn dt d] by (simp add: D_def)
  show "getDay z (newDate3 z (Num y) (Num M) (Num dt)) = Num ((MakeDay ym mn dt' + 4) mod 7)"
    unfolding v using d by (simp add: WeekDay_def D_def)
qed

text \<open>A zone with one offset of at most a day keeps every midnight.\<close>

lemma constant_zone_keeps_midnight:
  assumes "\<bar>c\<bar> \<le> msPerDay"
  shows "keeps_midnight \<lparr>utc_offset = (\<lambda>t. c), local_offset = (\<lambda>x. c)\<rparr> D"
  using assms by (simp add: keeps_midnight_def LocalTime_def UTC_def Day_of_midnight)

subsection \<open>The two loops of the grid\<close>

lemma empty_loop_upto: "empty_loop (Num n) i days = days @ map EmptyCell [i..n - 1]"
proof (induction "Num n" i days rule: empty_loop.induct)
  case (1 i days)
  show ?case
  proof (cases "i < n")
    case True
    then have "[i..n - 1] = i # [i + 1..n - 1]"
      by (simp add: upto_rec1)
    with True 1 show ?thesis
      by (simp add: empty_loop.simps [of "Num n" i])
  next
    case False
    then show ?thesis
      by (simp add: empty_loop.simps [of "Num n" i])
  qed
qed

lemma day_loop_upto:
  "day_loop z now st (Num n) day days =
     days @ map (\<lambda>d. DayCell d (isToday z now st d) (isSelected z st d)) [day..n]"
proof (induction z now st "Num n" day days rule: day_loop.induct)
  case (1 z now st day days)
  show ?case
  proof (cases "day \<le> n")
    case True
    then have "[day..n] = day # [day + 1..n]"
      by (simp add: upto_rec1)
    with True 1 show ?thesis
      by (simp add: day_loop.simps [of z now st "Num n" day])
  next
    case False
    then show ?thesis
      by (simp add: day_loop.simps [of z now st "Num n" day])
  qed
qed

section \<open>The handlers of the application shell and the event fetch\<close>

lemmas stmt_defs =
  seq_def exec_def skip_def ret_def try_catch_def try_finally_def call_unawaited_def

text \<open>
  Claim C5. A failed event fetch completes normally (nothing is thrown), and leaves
  \<open>allEvents\<close> empty and \<open>loading\<close> false; its only other effect is one entry on the
  console: the state has no field that would show the failure to the user.
\<close>

theorem fetchEvents_failure:
  "fetchEvents (Rejected err) st =
     (Normal, st\<lparr>allEvents := [], loading := False,
                 cal_console := cal_console st @
                   [LogError ''Failed to fetch calendar events:'' err]\<rparr>)"
  by (simp add: fetchEvents_def stmt_defs)

text \<open>
  Claim C6. When the status endpoint reports an authenticated session and the profile
  fetch fails, the check ends anonymous (not authenticated, empty email, no longer
  checking), and the error shown is the message of the profile failure: its detail when
  it has one, and "Unable to load user profile" when it has none, which is not the
  fallback of a failed status check.
\<close>

theorem checkAuthStatus_profile_failure:
  "checkAuthStatus (Resolved (Some True)) (Rejected userErr) st =
     (Normal, st\<lparr>isAuthenticated := False, userEmail := [], isCheckingAuth := False,
                 authError := (case detail userErr of
                                 Some message \<Rightarrow> message
                               | None \<Rightarrow> ''Unable to load user profile''),
                 app_console := app_console st @
                   [LogInfo ''Auth status response:'',
                    LogError ''Fetching user profile failed:'' userErr]\<rparr>) \<and>
   authError (snd (checkAuthStatus (Resolved (Some True)) (Rejected (ApiError None)) st))
     = ''Unable to load user profile'' \<and>
   authError (snd (checkAuthStatus (Resolved (Some True)) (Rejected (ApiError (Some message))) st))
     = message \<and>
   ''Unable to load user profile'' \<noteq> ''Authentication check failed''"
  by (cases "detail userErr")
    (simp_all add: checkAuthStatus_def checkAuthStatus_begin_def checkAuthStatus_resume_def
      stmt_defs)

text \<open>
  Claim C7, with the state after the re-check left to the re-check. Whatever the outcome
  of the logout call, \<open>handleLogout\<close> completes normally, and when it is over the state is
  anonymous (not authenticated, empty email) with the status check started: the check is
  marked as running and the error message is empty. A failed logout call only adds a
  console entry. When the status check that it started is over, the state is
  authenticated exactly when the status endpoint reports a session and the profile fetch
  succeeds, with the email of the profile, and anonymous otherwise.
\<close>

theorem handleLogout_anonymous_then_check:
  "handleLogout logoutRes st =
     (Normal, st\<lparr>isAuthenticated := False, userEmail := [], isCheckingAuth := True,
                 authError := [],
                 app_console := app_console st @
                   (case logoutRes of
                      Resolved u \<Rightarrow> []
                    | Rejected error \<Rightarrow> [LogError ''Logout failed:'' error])\<rparr>) \<and>
   fst (handleLogout_recheck logoutRes statusRes userRes st) \<noteq> Throw e \<and>
   isAuthenticated (snd (handleLogout_recheck logoutRes statusRes userRes st)) =
     (statusRes = Resolved (Some True) \<and> (case userRes of Resolved email \<Rightarrow> True | Rejected err \<Rightarrow> False)) \<and>
   userEmail (snd (handleLogout_recheck logoutRes statusRes userRes st)) =
     (if statusRes = Resolved (Some True)
      then (case userRes of
              Resolved email \<Rightarrow> (case email of Some address \<Rightarrow> address | None \<Rightarrow> [])
            | Rejected err \<Rightarrow> [])
      else []) \<and>
   isCheckingAuth (snd (handleLogout_recheck logoutRes statusRes userRes st)) = False"
proof -
  have a: "handleLogout logoutRes st =
     (Normal, st\<lparr>isAuthenticated := False, userEmail := [], isCheckingAuth := True,
                 authError := [],
                 app_console := app_console st @
                   (case logoutRes of
                      Resolved u \<Rightarrow> []
                    | Rejected error \<Rightarrow> [LogError ''Logout failed:'' error])\<rparr>)"
    by (cases logoutRes) (simp_all add: handleLogout_def checkAuthStatus_begin_def stmt_defs)
  have b: "fst (checkAuthStatus_resume statusRes userRes s) \<noteq> Throw e \<and>
      isAuthenticated (snd (checkAuthStatus_resume statusRes userRes s)) =
        (statusRes = Resolved (Some True) \<and>
         (case userRes of Resolved email \<Rightarrow> True | Rejected err \<Rightarrow> False)) \<and>
      userEmail (snd (checkAuthStatus_resume statusRes userRes s)) =
        (if statusRes = Resolved (Some True)
         then (case userRes of
                 Resolved email \<Rightarrow> (case email of Some address \<Rightarrow> address | None \<Rightarrow> [])
               | Rejected err \<Rightarrow> [])
         else []) \<and>
      isCheckingAuth (snd (checkAuthStatus_resume statusRes userRes s)) = False" for s
  proof (cases statusRes)
    case (Resolved authenticated)
    then show ?thesis
      by (cases userRes)
        (auto simp: checkAuthStatus_resume_def stmt_defs split: option.splits)
  next
    case (Rejected err)
    then show ?thesis
      by (simp add: checkAuthStatus_resume_def stmt_defs)
  qed
  show ?thesis
    using a b by (simp add: handleLogout_recheck_def seq_def)
qed

text \<open>
  A logout whose call fails while the session lives on: the status check that the logout
  started finds the session and loads the profile, and the state ends authenticated.
\<close>

theorem handleLogout_session_alive:
  "isAuthenticated (snd (handleLogout_recheck (Rejected (ApiError None))
      (Resolved (Some True)) (Resolved (Some ''ada@example.org''))
      \<lparr>isAuthenticated = True, userEmail = ''ada@example.org'', isCheckingAuth = False,
       authError = [], app_console = []\<rparr>)) \<and>
   userEmail (snd (handleLogout_recheck (Rejected (ApiError None))
      (Resolved (Some True)) (Resolved (Some ''ada@example.org''))
      \<lparr>isAuthenticated = True, userEmail = ''ada@example.org'', isCheckingAuth = False,
       authError = [], app_console = []\<rparr>)) = ''ada@example.org''"
  by (simp add: handleLogout_recheck_def handleLogout_def checkAuthStatus_begin_def
      checkAuthStatus_resume_def stmt_defs)

section \<open>Navigation and the today mark\<close>

lemma navigate_frame: "(navigate z a st)\<lparr>currentDate := d\<rparr> = st\<lparr>currentDate := d\<rparr>"
  by (cases a) (simp_all add: prevMonth_def nextMonth_def)

lemma navigate_all_frame:
  "(navigate_all z acts st)\<lparr>currentDate := d\<rparr> = st\<lparr>currentDate := d\<rparr>"
  unfolding navigate_all_def
proof (induction acts arbitrary: st)
  case Nil
  show ?case by simp
next
  case (Cons a acts)
  have "(foldl (\<lambda>s a. navigate z a s) st (a # acts))\<lparr>currentDate := d\<rparr>
        = (navigate z a st)\<lparr>currentDate := d\<rparr>"
    using Cons.IH [of "navigate z a st"] by simp
  then show ?case by (simp add: navigate_frame)
qed

text \<open>
  Claim C9. After any sequence of clicks on the two navigation buttons the selected date
  is the one before, and so is every other field of the state: putting the old displayed
  month back gives the old state.
\<close>

theorem navigation_keeps_selection:
  "selectedDate (navigate_all z acts st) = selectedDate st \<and>
   (navigate_all z acts st)\<lparr>currentDate := currentDate st\<rparr> = st"
proof -
  define st' where "st' = navigate_all z acts st"
  have e: "st'\<lparr>currentDate := currentDate st\<rparr> = st"
    unfolding st'_def using navigate_all_frame [where d = "currentDate st" and st = st] by simp
  have "selectedDate st' = selectedDate (st'\<lparr>currentDate := currentDate st\<rparr>)"
    by simp
  also have "\<dots> = selectedDate st"
    by (simp only: e)
  finally show ?thesis
    using e unfolding st'_def by (rule conjI)
qed

lemma empty_loop_cells: "set (empty_loop firstDay i days) \<subseteq> set days \<union> range EmptyCell"
proof (cases firstDay)
  case NaN
  then show ?thesis by (simp add: empty_loop.simps [of NaN])
next
  case (Num n)
  then show ?thesis by (auto simp: empty_loop_upto)
qed

lemma day_loop_cells:
  "set (day_loop z now st daysInMonth day days) \<subseteq>
     set days \<union> range (\<lambda>d. DayCell d (isToday z now st d) (isSelected z st d))"
proof (cases daysInMonth)
  case NaN
  then show ?thesis by (simp add: day_loop.simps [of z now st NaN])
next
  case (Num n)
  then show ?thesis by (auto simp: day_loop_upto)
qed

lemma renderCalendar_day_cell:
  assumes "DayCell d t s \<in> set (renderCalendar z now st)"
  shows "t = isToday z now st d" "s = isSelected z st d"
proof -
  define e where "e = empty_loop (getFirstDayOfMonth z (currentDate st)) 0 []"
  have "DayCell d t s \<in> set e \<union> range (\<lambda>d. DayCell d (isToday z now st d) (isSelected z st d))"
    using assms day_loop_cells [of z now st "getDaysInMonth z (currentDate st)" 1 e]
    by (auto simp: renderCalendar_def Let_def e_def)
  moreover have "DayCell d t s \<notin> set e"
    using empty_loop_cells [of "getFirstDayOfMonth z (currentDate st)" 0 "[]"]
    by (auto simp: e_def)
  ultimately show "t = isToday z now st d" "s = isSelected z st d"
    by auto
qed

text \<open>
  Claim C8. \<open>isToday\<close> holds of a day exactly when the displayed year and month are the
  year and month of the current local date and the day is its day of the month; and
  every day cell of the grid carries that mark: it is marked today exactly when its day,
  with the displayed month and year, is the current local date.
\<close>

theorem today_mark:
  "(isToday z now st day \<longleftrightarrow>
     getFullYear z (currentDate st) = Num (YearFromTime (LocalTime z now)) \<and>
     getMonth z (currentDate st) = Num (MonthFromTime (LocalTime z now)) \<and>
     day = DateFromTime (LocalTime z now)) \<and>
   (\<forall>d t s. DayCell d t s \<in> set (renderCalendar z now st) \<longrightarrow>
     (t \<longleftrightarrow>
       getFullYear z (currentDate st) = Num (YearFromTime (LocalTime z now)) \<and>
       getMonth z (currentDate st) = Num (MonthFromTime (LocalTime z now)) \<and>
       d = DateFromTime (LocalTime z now)))"
proof -
  have a: "isToday z now st day \<longleftrightarrow>
     getFullYear z (currentDate st) = Num (YearFromTime (LocalTime z now)) \<and>
     getMonth z (currentDate st) = Num (MonthFromTime (LocalTime z now)) \<and>
     day = DateFromTime (LocalTime z now)" for day
    by (cases "currentDate st") (auto simp: isToday_def Let_def)
  show ?thesis
    using a renderCalendar_day_cell(1) [of _ _ _ z now st] by blast
qed

lemma feb_15_cell:
  "DayCell 15 True False \<in> set (renderCalendar utc_zone 1707955200000
      \<lparr>currentDate = Num 1707955200000, selectedDate = None,
       allEvents = [], loading = False, cal_console = []\<rparr>)"
  by code_simp

text \<open>
  On 15 February 2024 (UTC) with February 2024 displayed, the cell of day 15 is in the
  grid and marked today.
\<close>

theorem today_mark_witness:
  "DayCell 15 True False \<in> set (renderCalendar utc_zone 1707955200000
      \<lparr>currentDate = Num 1707955200000, selectedDate = None,
       allEvents = [], loading = False, cal_console = []\<rparr>) \<and>
   getFullYear utc_zone (currentDate \<lparr>currentDate = Num 1707955200000, selectedDate = None,
       allEvents = [], loading = False, cal_console = []\<rparr>)
     = Num (YearFromTime (LocalTime utc_zone 1707955200000)) \<and>
   getMonth utc_zone (currentDate \<lparr>currentDate = Num 1707955200000, selectedDate = None,
       allEvents = [], loading = False, cal_console = []\<rparr>)
     = Num (MonthFromTime (LocalTime utc_zone 1707955200000)) \<and>
   15 = DateFromTime (LocalTime utc_zone 1707955200000)"
  using today_mark [of utc_zone 1707955200000 "\<lparr>currentDate = Num 1707955200000, selectedDate = None,
       allEvents = [], loading = False, cal_console = []\<rparr>" 15] feb_15_cell
  by blast

section \<open>The month grid\<close>

lemma displayed_month_range:
  assumes "getMonth z d = Num m"
  shows "0 \<le> m" "m \<le> 11"
  using assms MonthFromTime_range by (cases d; auto)+

lemma getDaysInMonth_civil:
  assumes y: "getFullYear z d = Num y" and m: "getMonth z d = Num m"
    and ok: "y < 0 \<or> 99 < y" and range: "- 271820 \<le> y" "y \<le> 275759"
    and k: "keeps_midnight z (MakeDay y m (civil_days_in_month y m))"
  shows "getDaysInMonth z d = Num (civil_days_in_month y m)"
proof -
  note mr = displayed_month_range [OF m]
  have len: "1 \<le> civil_days_in_month y m" "civil_days_in_month y m \<le> civil_days_in_month y m"
    using civil_days_in_month_range [of y m] by simp_all
  show ?thesis
    unfolding getDaysInMonth_def Let_def y m num_add.simps
    by (rule newDate3_fields(4) [OF ok MakeDay_last_day [OF mr] mr len range k])
qed

lemma getFirstDayOfMonth_civil:
  assumes y: "getFullYear z d = Num y" and m: "getMonth z d = Num m"
    and ok: "y < 0 \<or> 99 < y" and range: "- 271820 \<le> y" "y \<le> 275759"
    and k: "keeps_midnight z (MakeDay y m 1)"
  shows "getFirstDayOfMonth z d = Num (civil_weekday y m 1)"
proof -
  note mr = displayed_month_range [OF m]
  have one: "(1::int) \<le> 1" "1 \<le> civil_days_in_month y m"
    using civil_days_in_month_range [of y m] by simp_all
  have "getFirstDayOfMonth z d = Num ((MakeDay y m 1 + 4) mod 7)"
    unfolding getFirstDayOfMonth_def Let_def y m
    by (rule newDate3_fields(5) [OF ok refl mr one range k])
  then show ?thesis by (simp only: first_weekday [OF mr])
qed

text \<open>
  What the grid computation does where the Date constructor takes the displayed year as
  it is. For a displayed month \<open>m\<close> of a year \<open>y\<close> outside 0 to 99 and inside the Date
  range, in a zone that keeps the midnights of the first and of the last day of the
  month, \<open>getDaysInMonth\<close> is the number of days of the month in the civil calendar,
  \<open>getFirstDayOfMonth\<close> is the week day of its first day, and the grid is that many empty
  cells followed by one cell for each day from 1 to the last.
\<close>

lemma month_grid_civil:
  assumes "getFullYear z (currentDate st) = Num y"
    and "getMonth z (currentDate st) = Num m"
    and "y < 0 \<or> 99 < y" and "- 271820 \<le> y" and "y \<le> 275759"
    and "keeps_midnight z (MakeDay y m 1)"
    and "keeps_midnight z (MakeDay y m (civil_days_in_month y m))"
  shows "getDaysInMonth z (currentDate st) = Num (civil_days_in_month y m) \<and>
         getFirstDayOfMonth z (currentDate st) = Num (civil_weekday y m 1) \<and>
         renderCalendar z now st =
           map EmptyCell [0..civil_weekday y m 1 - 1] @
           map (\<lambda>d. DayCell d (isToday z now st d) (isSelected z st d))
             [1..civil_days_in_month y m]"
proof -
  have d: "getDaysInMonth z (currentDate st) = Num (civil_days_in_month y m)"
    using assms(1-5,7) by (rule getDaysInMonth_civil)
  have f: "getFirstDayOfMonth z (currentDate st) = Num (civil_weekday y m 1)"
    using assms(1-6) by (rule getFirstDayOfMonth_civil)
  have "renderCalendar z now st =
           map EmptyCell [0..civil_weekday y m 1 - 1] @
           map (\<lambda>d. DayCell d (isToday z now st d) (isSelected z st d))
             [1..civil_days_in_month y m]"
    by (simp add: renderCalendar_def Let_def d f empty_loop_upto day_loop_upto)
  with d f show ?thesis by simp
qed

text \<open>February 2024 in UTC: 29 days, and the first is a Thursday.\<close>

lemma feb_2024_fields:
  "YearFromTime (LocalTime utc_zone 1707955200000) = 2024"
  "MonthFromTime (LocalTime utc_zone 1707955200000) = 1"
  by code_simp+

lemma feb_2024_civil: "civil_days_in_month 2024 1 = 29" "civil_weekday 2024 1 1 = 4"
  by (simp_all add: civil_days_in_month_def civil_leap_year_def civil_weekday_def)

lemma month_grid_feb_2024:
  "getDaysInMonth utc_zone (Num 1707955200000) = Num 29 \<and>
   getFirstDayOfMonth utc_zone (Num 1707955200000) = Num 4"
proof -
  define st where "st = \<lparr>currentDate = Num 1707955200000, selectedDate = None,
      allEvents = [], loading = False, cal_console = []\<rparr>"
  have y: "getFullYear utc_zone (currentDate st) = Num 2024"
    and m: "getMonth utc_zone (currentDate st) = Num 1"
    by (simp_all add: st_def feb_2024_fields)
  have k: "keeps_midnight utc_zone D" for D
    unfolding utc_zone_def by (rule constant_zone_keeps_midnight) (simp add: msPerDay_def)
  show ?thesis
    using month_grid_civil [OF y m _ _ _ k k, of 0] by (simp add: feb_2024_civil st_def)
qed

text \<open>
  Claim C2, at the displayed month December of the year 99 in UTC (the Date of its first
  day at midnight). The header shows December 99: \<open>getFullYear\<close> is 99 and \<open>getMonth\<close> is
  11. The first day of that month is a Tuesday, by Zeller's congruence and by the Date
  arithmetic itself on the displayed date. But \<open>getFirstDayOfMonth\<close> hands the year 99 to
  the Date constructor, which reads it as 1999: the offset is 3, the week day of
  1 December 1999, and the grid opens with three empty cells.
\<close>

theorem month_grid_year_99:
  "getFullYear utc_zone (Num (- 59014137600000)) = Num 99 \<and>
   getMonth utc_zone (Num (- 59014137600000)) = Num 11 \<and>
   getDate utc_zone (Num (- 59014137600000)) = Num 1 \<and>
   getDay utc_zone (Num (- 59014137600000)) = Num 2 \<and>
   civil_weekday 99 11 1 = 2 \<and>
   civil_weekday 1999 11 1 = 3 \<and>
   getFirstDayOfMonth utc_zone (Num (- 59014137600000)) = Num 3 \<and>
   take 4 (renderCalendar utc_zone 1707955200000
      \<lparr>currentDate = Num (- 59014137600000), selectedDate = None,
       allEvents = [], loading = False, cal_console = []\<rparr>) =
     [EmptyCell 0, EmptyCell 1, EmptyCell 2, DayCell 1 False False]"
  by code_simp

section \<open>Month navigation\<close>

text \<open>
  \<^verbatim>\<open>new Date(y, M)\<close> for a year outside 0 to 99: the first of month \<open>M mod 12\<close> of the
  year \<open>y + M div 12\<close>, when that year is inside the Date range and the zone keeps the
  midnight of that day.
\<close>

lemma newDate2_fields:
  assumes ok: "y < 0 \<or> 99 < y"
    and range: "- 271820 \<le> y + M div 12" "y + M div 12 \<le> 275759"
    and k: "keeps_midnight z (MakeDay (y + M div 12) (M mod 12) 1)"
  shows "getFullYear z (newDate2 z (Num y) (Num M)) = Num (y + M div 12)"
    and "getMonth z (newDate2 z (Num y) (Num M)) = Num (M mod 12)"
proof -
  have mn: "0 \<le> M mod 12" "M mod 12 \<le> 11"
    using pos_mod_bound [of 12 M] by simp_all
  have one: "(1::int) \<le> 1" "1 \<le> civil_days_in_month (y + M div 12) (M mod 12)"
    using civil_days_in_month_range [of "y + M div 12" "M mod 12"] by simp_all
  show "getFullYear z (newDate2 z (Num y) (Num M)) = Num (y + M div 12)"
    unfolding newDate2_def
    by (rule newDate3_fields(2) [OF ok MakeDay_norm mn one range k])
  show "getMonth z (newDate2 z (Num y) (Num M)) = Num (M mod 12)"
    unfolding newDate2_def
    by (rule newDate3_fields(3) [OF ok MakeDay_norm mn one range k])
qed

lemma month_index_shift:
  fixes i k :: int
  shows "i div 12 + (i mod 12 + k) div 12 = (i + k) div 12"
    and "(i mod 12 + k) mod 12 = (i + k) mod 12"
proof -
  have e: "i + k = (i mod 12 + k) + 12 * (i div 12)"
    using mult_div_mod_eq [of 12 i] by simp
  show "i div 12 + (i mod 12 + k) div 12 = (i + k) div 12"
    unfolding e using div_mult_self2 [of 12 "i mod 12 + k" "i div 12"] by simp
  show "(i mod 12 + k) mod 12 = (i + k) mod 12"
    by (simp add: mod_add_left_eq)
qed

lemma month_index_fields:
  fixes q r :: int
  assumes "0 \<le> r" "r < 12"
  shows "(12 * q + r) div 12 = q" "(12 * q + r) mod 12 = r"
  using int_div_pos_eq [OF refl assms] int_mod_pos_eq [OF refl assms] by simp_all

text \<open>
  One click. From a displayed month of a year outside 0 to 99 a button shows the month
  next to it, when the year of that month is inside the Date range and the zone keeps
  the midnight of its first day. The year of the month shown may be any: from January 100
  the previous-month button shows December 99.
\<close>

lemma navigate_displays:
  assumes d: "displays z st i"
    and here: "i div 12 < 0 \<or> 99 < i div 12"
    and there: "- 271820 \<le> (i + month_shift a) div 12" "(i + month_shift a) div 12 \<le> 275759"
    and k: "keeps_midnight z (MakeDay ((i + month_shift a) div 12) ((i + month_shift a) mod 12) 1)"
  shows "displays z (navigate z a st) (i + month_shift a)"
proof -
  have cur: "currentDate (navigate z a st) =
      newDate2 z (Num (i div 12)) (Num (i mod 12 + month_shift a))"
    using d by (cases a) (simp_all add: displays_def prevMonth_def nextMonth_def)
  have range: "- 271820 \<le> i div 12 + (i mod 12 + month_shift a) div 12"
    "i div 12 + (i mod 12 + month_shift a) div 12 \<le> 275759"
    using there by (simp_all add: month_index_shift(1))
  have k': "keeps_midnight z (MakeDay (i div 12 + (i mod 12 + month_shift a) div 12)
      ((i mod 12 + month_shift a) mod 12) 1)"
    using k by (simp add: month_index_shift)
  show ?thesis
    unfolding displays_def cur
    using newDate2_fields [OF here range k']
    by (simp add: month_index_shift)
qed

lemma month_step:
  assumes y: "getFullYear z (currentDate st) = Num y"
    and m: "getMonth z (currentDate st) = Num m"
    and ok: "y < 0 \<or> 99 < y"
    and there: "- 271820 \<le> (12 * y + m + month_shift a) div 12"
      "(12 * y + m + month_shift a) div 12 \<le> 275759"
    and k: "keeps_midnight z (MakeDay ((12 * y + m + month_shift a) div 12)
      ((12 * y + m + month_shift a) mod 12) 1)"
  shows "getFullYear z (currentDate (navigate z a st)) =
           Num (case a of NextMonth \<Rightarrow> if m = 11 then y + 1 else y
                        | PrevMonth \<Rightarrow> if m = 0 then y - 1 else y)"
    and "getMonth z (currentDate (navigate z a st)) =
           Num (case a of NextMonth \<Rightarrow> if m = 11 then 0 else m + 1
                        | PrevMonth \<Rightarrow> if m = 0 then 11 else m - 1)"
proof -
  note mr = displayed_month_range [OF m]
  define i where "i = 12 * y + m"
  have im: "i div 12 = y" "i mod 12 = m"
    using month_index_fields [of m y] mr by (simp_all add: i_def)
  have d: "displays z st i"
    by (simp add: displays_def im y m)
  have here: "i div 12 < 0 \<or> 99 < i div 12"
    using ok by (simp add: im)
  have s: "displays z (navigate z a st) (i + month_shift a)"
    using d here there k unfolding i_def [symmetric] by (rule navigate_displays)
  have n: "(i + 1) div 12 = (if m = 11 then y + 1 else y)"
    "(i + 1) mod 12 = (if m = 11 then 0 else m + 1)"
    using month_index_fields [of "m + 1" y] month_index_fields [of 0 "y + 1"] mr
    by (auto simp: i_def algebra_simps)
  have p: "(i - 1) div 12 = (if m = 0 then y - 1 else y)"
    "(i - 1) mod 12 = (if m = 0 then 11 else m - 1)"
    using month_index_fields [of "m - 1" y] month_index_fields [of 11 "y - 1"] mr
    by (auto simp: i_def algebra_simps)
  show "getFullYear z (currentDate (navigate z a st)) =
           Num (case a of NextMonth \<Rightarrow> if m = 11 then y + 1 else y
                        | PrevMonth \<Rightarrow> if m = 0 then y - 1 else y)"
    using s n(1) p(1) by (cases a) (simp_all add: displays_def)
  show "getMonth z (currentDate (navigate z a st)) =
           Num (case a of NextMonth \<Rightarrow> if m = 11 then 0 else m + 1
                        | PrevMonth \<Rightarrow> if m = 0 then 11 else m - 1)"
    using s n(2) p(2) by (cases a) (simp_all add: displays_def)
qed

text \<open>Clicks on one button, through months of years that the constructor takes as they are.\<close>

lemma navigate_replicate:
  "displays z st i \<Longrightarrow>
   (\<forall>j. j \<le> n \<longrightarrow> plain_month z (i + int j * month_shift a)) \<Longrightarrow>
   displays z (navigate_all z (replicate n a) st) (i + int n * month_shift a)"
proof (induction n arbitrary: st i)
  case 0
  then show ?case by (simp add: navigate_all_def)
next
  case (Suc n)
  define k where "k = month_shift a"
  have p0: "plain_month z i"
    using Suc.prems(2) [rule_format, of 0] by simp
  have p1: "plain_month z (i + month_shift a)"
    using Suc.prems(2) [rule_format, of 1] by simp
  have step: "displays z (navigate z a st) (i + month_shift a)"
    using Suc.prems(1) p0 p1
    by (intro navigate_displays) (simp_all add: plain_month_def plain_year_def)
  have rest: "\<forall>j. j \<le> n \<longrightarrow> plain_month z (i + month_shift a + int j * month_shift a)"
  proof (intro allI impI)
    fix j assume "j \<le> n"
    then have "plain_month z (i + int (Suc j) * k)"
      using Suc.prems(2) [rule_format, of "Suc j"] by (simp add: k_def)
    moreover have "i + int (Suc j) * k = i + k + int j * k"
      by (simp add: algebra_simps)
    ultimately show "plain_month z (i + month_shift a + int j * month_shift a)"
      by (simp only: k_def)
  qed
  have e: "i + k + int n * k = i + int (Suc n) * k"
    by (simp add: algebra_simps)
  have "displays z (navigate_all z (replicate n a) (navigate z a st))
          (i + k + int n * k)"
    unfolding k_def by (rule Suc.IH [OF step rest])
  then have "displays z (navigate_all z (replicate n a) (navigate z a st))
          (i + int (Suc n) * k)"
    by (simp only: e)
  then show ?case
    by (simp add: navigate_all_def k_def)
qed

text \<open>
  Twelve clicks on one button and twelve on the other, through months of years that the
  constructor takes as they are, show the month and the year of the start.
\<close>

lemma month_round_trip:
  assumes y: "getFullYear z (currentDate st) = Num y"
    and m: "getMonth z (currentDate st) = Num m"
    and near: "\<And>k. - 12 \<le> k \<Longrightarrow> k \<le> 12 \<Longrightarrow> plain_month z (12 * y + m + k)"
  shows "getFullYear z (currentDate
            (navigate_all z (replicate 12 NextMonth @ replicate 12 PrevMonth) st)) = Num y \<and>
         getMonth z (currentDate
            (navigate_all z (replicate 12 NextMonth @ replicate 12 PrevMonth) st)) = Num m \<and>
         getFullYear z (currentDate
            (navigate_all z (replicate 12 PrevMonth @ replicate 12 NextMonth) st)) = Num y \<and>
         getMonth z (currentDate
            (navigate_all z (replicate 12 PrevMonth @ replicate 12 NextMonth) st)) = Num m"
proof -
  note mr = displayed_month_range [OF m]
  define i where "i = 12 * y + m"
  have im: "i div 12 = y" "i mod 12 = m"
    using month_index_fields [of m y] mr by (simp_all add: i_def)
  have d: "displays z st i"
    by (simp add: displays_def im y m)
  have near': "plain_month z (i + k)" if "- 12 \<le> k" "k \<le> 12" for k
    unfolding i_def using that by (rule near)
  have "displays z (navigate_all z (replicate 12 NextMonth) st)
      (i + int 12 * month_shift NextMonth)"
  proof (rule navigate_replicate [OF d], intro allI impI)
    fix j :: nat assume "j \<le> 12"
    then have "plain_month z (i + int j)"
      by (intro near') simp_all
    then show "plain_month z (i + int j * month_shift NextMonth)"
      by simp
  qed
  then have fwd: "displays z (navigate_all z (replicate 12 NextMonth) st) (i + 12)"
    by simp
  have "displays z
      (navigate_all z (replicate 12 PrevMonth) (navigate_all z (replicate 12 NextMonth) st))
      (i + 12 + int 12 * month_shift PrevMonth)"
  proof (rule navigate_replicate [OF fwd], intro allI impI)
    fix j :: nat assume "j \<le> 12"
    then have "plain_month z (i + (12 - int j))"
      by (intro near') simp_all
    then show "plain_month z (i + 12 + int j * month_shift PrevMonth)"
      by (simp add: algebra_simps)
  qed
  then have round1: "displays z
      (navigate_all z (replicate 12 NextMonth @ replicate 12 PrevMonth) st) i"
    by (simp add: navigate_all_def)
  have "displays z (navigate_all z (replicate 12 PrevMonth) st)
      (i + int 12 * month_shift PrevMonth)"
  proof (rule navigate_replicate [OF d], intro allI impI)
    fix j :: nat assume "j \<le> 12"
    then have "plain_month z (i + (- int j))"
      by (intro near') simp_all
    then show "plain_month z (i + int j * month_shift PrevMonth)"
      by simp
  qed
  then have bwd: "displays z (navigate_all z (replicate 12 PrevMonth) st) (i - 12)"
    by simp
  have "displays z
      (navigate_all z (replicate 12 NextMonth) (navigate_all z (replicate 12 PrevMonth) st))
      (i - 12 + int 12 * month_shift NextMonth)"
  proof (rule navigate_replicate [OF bwd], intro allI impI)
    fix j :: nat assume "j \<le> 12"
    then have "plain_month z (i + (int j - 12))"
      by (intro near') simp_all
    then show "plain_month z (i - 12 + int j * month_shift NextMonth)"
      by (simp add: algebra_simps)
  qed
  then have round2: "displays z
      (navigate_all z (replicate 12 PrevMonth @ replicate 12 NextMonth) st) i"
    by (simp add: navigate_all_def)
  from round1 round2 show ?thesis
    by (simp add: displays_def im)
qed

text \<open>
  Claim C3, from the displayed month January of the year 100 in UTC (the Date of its first
  day at midnight). One click on the previous-month button shows December 99, as it
  should. The second click hands the year 99 to the Date constructor, which reads it as
  1999, and shows November 1999 and not November 99. Twelve clicks back and twelve
  forward end in January 2000 and not in January 100.
\<close>

theorem month_navigation_year_99:
  "getFullYear utc_zone (Num (- 59011459200000)) = Num 100 \<and>
   getMonth utc_zone (Num (- 59011459200000)) = Num 0 \<and>
   getFullYear utc_zone (currentDate (navigate_all utc_zone [PrevMonth]
      \<lparr>currentDate = Num (- 59011459200000), selectedDate = None,
       allEvents = [], loading = False, cal_console = []\<rparr>)) = Num 99 \<and>
   getMonth utc_zone (currentDate (navigate_all utc_zone [PrevMonth]
      \<lparr>currentDate = Num (- 59011459200000), selectedDate = None,
       allEvents = [], loading = False, cal_console = []\<rparr>)) = Num 11 \<and>
   getFullYear utc_zone (currentDate (navigate_all utc_zone [PrevMonth, PrevMonth]
      \<lparr>currentDate = Num (- 59011459200000), selectedDate = None,
       allEvents = [], loading = False, cal_console = []\<rparr>)) = Num 1999 \<and>
   getMonth utc_zone (currentDate (navigate_all utc_zone [PrevMonth, PrevMonth]
      \<lparr>currentDate = Num (- 59011459200000), selectedDate = None,
       allEvents = [], loading = False, cal_console = []\<rparr>)) = Num 10 \<and>
   getFullYear utc_zone (currentDate
     (navigate_all utc_zone (replicate 12 PrevMonth @ replicate 12 NextMonth)
        \<lparr>currentDate = Num (- 59011459200000), selectedDate = None,
         allEvents = [], loading = False, cal_console = []\<rparr>)) = Num 2000 \<and>
   getMonth utc_zone (currentDate
     (navigate_all utc_zone (replicate 12 PrevMonth @ replicate 12 NextMonth)
        \<lparr>currentDate = Num (- 59011459200000), selectedDate = None,
         allEvents = [], loading = False, cal_console = []\<rparr>)) = Num 0"
  by code_simp

section \<open>Date strings\<close>

subsection \<open>Decimal digits\<close>

lemma digit_cases:
  fixes n :: nat
  assumes "n < 10"
  obtains "n = 0" | "n = 1" | "n = 2" | "n = 3" | "n = 4" | "n = 5" | "n = 6" | "n = 7"
    | "n = 8" | "n = 9"
proof -
  have "n = 0 \<or> n = 1 \<or> n = 2 \<or> n = 3 \<or> n = 4 \<or> 5 \<le> n"
    by linarith
  moreover have "5 \<le> n \<Longrightarrow> n = 5 \<or> n = 6 \<or> n = 7 \<or> n = 8 \<or> n = 9"
    using assms by linarith
  ultimately show ?thesis using that by blast
qed

lemma digit_val_digit_char: "n < 10 \<Longrightarrow> digit_val (digit_char n) = n"
  by (erule digit_cases) (simp_all add: digit_val_def digit_char_def)

lemma digit_char_not_minus: "n < 10 \<Longrightarrow> digit_char n \<noteq> CHR ''-''"
  by (erule digit_cases) (simp_all add: digit_char_def)

lemma foldl_digits_snoc:
  "foldl (\<lambda>a c. 10 * a + digit_val c) 0 (xs @ [c]) =
     10 * foldl (\<lambda>a c. 10 * a + digit_val c) 0 xs + digit_val c"
  by simp

lemma digits_val_nat_digits: "digits_val (nat_digits n) = n"
proof (induction n rule: nat_digits.induct)
  case (1 n)
  show ?case
  proof (cases "n < 10")
    case True
    then show ?thesis
      by (simp add: nat_digits.simps [of n] digits_val_def digit_val_digit_char)
  next
    case False
    then have "digits_val (nat_digits (n div 10)) = n div 10"
      using 1 by simp
    then show ?thesis
      using False
      by (simp add: nat_digits.simps [of n] digits_val_def digit_val_digit_char)
  qed
qed

lemma nat_digits_not_empty: "nat_digits n \<noteq> []"
  by (simp add: nat_digits.simps [of n])

lemma nat_digits_no_minus: "CHR ''-'' \<notin> set (nat_digits n)"
proof (induction n rule: nat_digits.induct)
  case (1 n)
  show ?case
  proof (cases "n < 10")
    case True
    then show ?thesis
      using digit_char_not_minus [of n] by (auto simp: nat_digits.simps [of n])
  next
    case False
    then show ?thesis
      using 1 digit_char_not_minus [of "n mod 10"]
      by (auto simp: nat_digits.simps [of n])
  qed
qed

lemma digits_val_zeros: "digits_val (replicate k CHR ''0'' @ s) = digits_val s"
proof -
  have "foldl (\<lambda>a c. 10 * a + digit_val c) 0 (replicate k CHR ''0'') = 0"
    by (induction k) (simp_all add: digit_val_def)
  then show ?thesis by (simp add: digits_val_def)
qed

lemma digits_val_padStart: "digits_val (padStart k CHR ''0'' (nat_digits n)) = n"
  by (simp add: padStart_def digits_val_zeros digits_val_nat_digits)

lemma padStart_no_minus: "CHR ''-'' \<notin> set (padStart k CHR ''0'' (nat_digits n))"
  using nat_digits_no_minus [of n] by (auto simp: padStart_def)

lemma padStart_not_empty: "padStart k c (nat_digits n) \<noteq> []"
  by (simp add: padStart_def nat_digits_not_empty)

lemma length_two_digits: "n < 100 \<Longrightarrow> length (padStart 2 CHR ''0'' (nat_digits n)) = 2"
proof -
  assume n: "n < 100"
  show ?thesis
  proof (cases "n < 10")
    case True
    then show ?thesis by (simp add: padStart_def nat_digits.simps [of n])
  next
    case False
    then have "n div 10 < 10" using n by simp
    then show ?thesis
      using False by (simp add: padStart_def nat_digits.simps [of n] nat_digits.simps [of "n div 10"])
  qed
qed

subsection \<open>The parts of a date string\<close>

lemma length_WeekDayName: "length (WeekDayName d) = 3"
  by (simp add: WeekDayName_def)

lemma length_MonthName: "length (MonthName m) = 3"
  by (simp add: MonthName_def)

lemma month_of_name_MonthName:
  assumes "0 \<le> m" "m \<le> 11"
  shows "month_of_name (MonthName m) = m"
  using assms
proof (cases rule: month_cases)
qed (simp_all add: month_of_name_def MonthName_def)

lemma year_of_string_year:
  "year_of_string ((if 0 \<le> y then [] else ''-'') @ padStart 4 CHR ''0'' (nat_digits (nat \<bar>y\<bar>))) = y"
proof (cases "0 \<le> y")
  case True
  define s where "s = padStart 4 CHR ''0'' (nat_digits (nat y))"
  have "hd s \<in> set s"
    unfolding s_def using padStart_not_empty by (intro hd_in_set)
  then have "hd s \<noteq> CHR ''-''"
    using padStart_no_minus [of 4 "nat y"] unfolding s_def by metis
  moreover have "digits_val s = nat y"
    unfolding s_def by (rule digits_val_padStart)
  ultimately have "year_of_string s = y"
    using True by (simp add: year_of_string_def)
  then show ?thesis
    using True by (simp add: s_def)
next
  case False
  then show ?thesis
    by (simp add: year_of_string_def digits_val_padStart)
qed

subsection \<open>A date string names one local date\<close>

lemma DayWithinYear_range:
  "0 \<le> DayWithinYear t" "DayWithinYear t < 365 + InLeapYear t"
proof -
  have "DaysInYear (YearFromTime t) = 365 + InLeapYear t"
    using DaysInYear_cases [of "YearFromTime t"] by (auto simp: InLeapYear_def)
  then show "0 \<le> DayWithinYear t" "DayWithinYear t < 365 + InLeapYear t"
    using YearFromDay_bounds [of "Day t"] DayFromYear_Suc [of "YearFromDay (Day t)"]
    by (simp_all add: DayWithinYear_def YearFromTime_def)
qed

lemma InLeapYear_cases: "InLeapYear t = 0 \<or> InLeapYear t = 1"
  by (simp add: InLeapYear_def)

lemma Day_fields: "Day t = MakeDay (YearFromTime t) (MonthFromTime t) (DateFromTime t)"
proof -
  define m where "m = MonthFromTime t"
  have mr: "0 \<le> m" "m \<le> 11"
    using MonthFromTime_range [of t] by (simp_all add: m_def)
  have l: "(if DaysInYear (YearFromTime t) = 366 then 1 else 0) = InLeapYear t"
    by (simp add: InLeapYear_def)
  have "DaysBeforeMonth (InLeapYear t) m + DateFromTime t - 1 = DayWithinYear t"
    unfolding DateFromTime_def Let_def m_def [symmetric]
    using mr
  proof (cases rule: month_cases)
  qed (simp_all add: DaysBeforeMonth_def)
  then show ?thesis
    using MakeDay_in_year [OF mr, of "YearFromTime t" "DateFromTime t"]
    by (simp add: l m_def DayWithinYear_def)
qed

lemma DateFromTime_range: "1 \<le> DateFromTime t" "DateFromTime t \<le> 31"
proof -
  define d l where "d = DayWithinYear t" and "l = InLeapYear t"
  have h: "0 \<le> d" "d < 365 + l" "l = 0 \<or> l = 1"
    using DayWithinYear_range [of t] InLeapYear_cases [of t] by (simp_all add: d_def l_def)
  have "1 \<le> DateFromTime t \<and> DateFromTime t \<le> 31"
    unfolding DateFromTime_def MonthFromTime_def Let_def d_def [symmetric] l_def [symmetric]
    using h by auto
  then show "1 \<le> DateFromTime t" "DateFromTime t \<le> 31" by simp_all
qed

lemma DateString_eq_iff:
  "DateString a = DateString b \<longleftrightarrow>
     YearFromTime a = YearFromTime b \<and> MonthFromTime a = MonthFromTime b \<and>
     DateFromTime a = DateFromTime b"
proof
  assume eq: "DateString a = DateString b"
  define ya yb where "ya = (if 0 \<le> YearFromTime a then [] else ''-'') @
      padStart 4 CHR ''0'' (nat_digits (nat \<bar>YearFromTime a\<bar>))"
    and "yb = (if 0 \<le> YearFromTime b then [] else ''-'') @
      padStart 4 CHR ''0'' (nat_digits (nat \<bar>YearFromTime b\<bar>))"
  define da db where "da = padStart 2 CHR ''0'' (nat_digits (nat (DateFromTime a)))"
    and "db = padStart 2 CHR ''0'' (nat_digits (nat (DateFromTime b)))"
  have ld: "length da = 2" "length db = 2"
    using DateFromTime_range [of a] DateFromTime_range [of b]
    by (simp_all add: da_def db_def length_two_digits)
  have "WeekDayName (WeekDay a) @ CHR '' '' # MonthName (MonthFromTime a) @ CHR '' '' # da @ CHR '' '' # ya
      = WeekDayName (WeekDay b) @ CHR '' '' # MonthName (MonthFromTime b) @ CHR '' '' # db @ CHR '' '' # yb"
    using eq by (simp add: DateString_def Let_def ya_def yb_def da_def db_def)
  then have parts: "MonthName (MonthFromTime a) = MonthName (MonthFromTime b)" "da = db" "ya = yb"
    by (simp_all add: length_WeekDayName length_MonthName ld)
  have "month_of_name (MonthName (MonthFromTime a)) = month_of_name (MonthName (MonthFromTime b))"
    by (simp only: parts(1))
  then have m: "MonthFromTime a = MonthFromTime b"
    using MonthFromTime_range [of a] MonthFromTime_range [of b]
    by (simp add: month_of_name_MonthName)
  have "digits_val da = digits_val db"
    by (simp only: parts(2))
  then have d: "DateFromTime a = DateFromTime b"
    using DateFromTime_range(1) [of a] DateFromTime_range(1) [of b]
    by (simp add: da_def db_def digits_val_padStart)
  have "year_of_string ya = year_of_string yb"
    by (simp only: parts(3))
  then have y: "YearFromTime a = YearFromTime b"
    unfolding ya_def yb_def by (simp only: year_of_string_year)
  from y m d show "YearFromTime a = YearFromTime b \<and> MonthFromTime a = MonthFromTime b \<and>
     DateFromTime a = DateFromTime b" by simp
next
  assume f: "YearFromTime a = YearFromTime b \<and> MonthFromTime a = MonthFromTime b \<and>
     DateFromTime a = DateFromTime b"
  then have "Day a = Day b"
    by (simp add: Day_fields [of a] Day_fields [of b])
  then have "WeekDay a = WeekDay b"
    by (simp add: WeekDay_def)
  with f show "DateString a = DateString b"
    by (simp add: DateString_def)
qed

lemma DateString_valid: "DateString a \<noteq> ''Invalid Date''"
proof
  assume "DateString a = ''Invalid Date''"
  then have "DateString a ! 3 = ''Invalid Date'' ! 3" by simp
  then show False
    by (simp add: DateString_def Let_def nth_append length_WeekDayName)
qed

lemma toDateString_eq_iff:
  "toDateString z d = toDateString z (Num t) \<longleftrightarrow> local_date z d = local_date z (Num t)"
proof (cases d)
  case NaN
  then show ?thesis
    using DateString_valid [of "LocalTime z t"] by auto
next
  case (Num u)
  then show ?thesis by (simp add: DateString_eq_iff)
qed

subsection \<open>The key of a day\<close>

lemma four_digits:
  assumes "1000 \<le> n" "n \<le> 9999"
  shows "nat_digits n =
    [digit_char (n div 1000 mod 10), digit_char (n div 100 mod 10),
     digit_char (n div 10 mod 10), digit_char (n mod 10)]"
proof -
  have d: "n div 10 div 10 = n div 100" "n div 100 div 10 = n div 1000"
    by (simp_all add: div_mult2_eq [symmetric])
  have big: "\<not> n < 10" "\<not> n div 10 < 10" "\<not> n div 100 < 10" "n div 1000 < 10"
    using assms by simp_all
  have e1: "nat_digits n = nat_digits (n div 10) @ [digit_char (n mod 10)]"
    using big(1) by (simp add: nat_digits.simps [of n])
  have e2: "nat_digits (n div 10) = nat_digits (n div 100) @ [digit_char (n div 10 mod 10)]"
    using big(2) by (simp add: nat_digits.simps [of "n div 10"] d)
  have e3: "nat_digits (n div 100) = nat_digits (n div 1000) @ [digit_char (n div 100 mod 10)]"
    using big(3) by (simp add: nat_digits.simps [of "n div 100"] d)
  have e4: "nat_digits (n div 1000) = [digit_char (n div 1000 mod 10)]"
    using big(4) by (simp add: nat_digits.simps [of "n div 1000"])
  show ?thesis
    by (simp add: e1 e2 e3 e4)
qed

lemma two_digits:
  assumes "n < 100"
  shows "padStart 2 CHR ''0'' (nat_digits n) = [digit_char (n div 10 mod 10), digit_char (n mod 10)]"
proof (cases "n < 10")
  case True
  then show ?thesis
    by (simp add: padStart_def nat_digits.simps [of n] digit_char_def)
next
  case False
  then have "n div 10 < 10" using assms by simp
  then show ?thesis
    using False
    by (simp add: padStart_def nat_digits.simps [of n] nat_digits.simps [of "n div 10"])
qed

text \<open>
  For a date whose local year has four digits, the key that the filter builds is the
  \<^verbatim>\<open>YYYY-MM-DD\<close> key of its local calendar date.
\<close>

lemma dateYMD_key:
  assumes ld: "local_date z d = Some (y, m, dd)" and y: "1000 \<le> y" "y \<le> 9999"
  shows "dateYMD z d = ymd_key (y, m, dd)"
proof -
  obtain t where d: "d = Num t"
    using ld by (cases d) simp_all
  have f: "YearFromTime (LocalTime z t) = y" "MonthFromTime (LocalTime z t) = m"
    "DateFromTime (LocalTime z t) = dd"
    using ld by (simp_all add: d)
  have mr: "0 \<le> m" "m \<le> 11"
    using MonthFromTime_range [of "LocalTime z t"] by (simp_all add: f)
  have dr: "1 \<le> dd" "dd \<le> 31"
    using DateFromTime_range [of "LocalTime z t"] by (simp_all add: f)
  have ys: "nat_digits (nat y) =
      [digit_char (nat y div 1000 mod 10), digit_char (nat y div 100 mod 10),
       digit_char (nat y div 10 mod 10), digit_char (nat y mod 10)]"
    using y by (intro four_digits) simp_all
  have ms: "padStart 2 CHR ''0'' (nat_digits (nat (m + 1))) =
      [digit_char (nat (m + 1) div 10 mod 10), digit_char (nat (m + 1) mod 10)]"
    using mr by (intro two_digits) simp
  have ds: "padStart 2 CHR ''0'' (nat_digits (nat dd)) =
      [digit_char (nat dd div 10 mod 10), digit_char (nat dd mod 10)]"
    using dr by (intro two_digits) simp
  have nn: "\<not> y < 0" "\<not> m + 1 < 0" "\<not> dd < 0"
    using y mr dr by simp_all
  show ?thesis
    by (simp add: dateYMD_def d f nn ys ms ds)
qed

section \<open>The events of a day and their rendering\<close>

lemma ymd_key_not_empty: "ymd_key ymd \<noteq> []"
  by (cases ymd) simp

lemma event_filter_day_rule:
  assumes ld: "local_date z d = Some (y, m, dd)" and y: "1000 \<le> y" "y \<le> 9999"
  shows "event_filter z parse d e = day_rule z parse (y, m, dd) e"
proof -
  obtain t where d: "d = Num t"
    using ld by (cases d) simp_all
  have key: "dateYMD z d = ymd_key (y, m, dd)"
    using ld y by (rule dateYMD_key)
  have str: "toDateString z p = toDateString z d \<longleftrightarrow> local_date z p = Some (y, m, dd)" for p
    unfolding d using toDateString_eq_iff [of z p t] ld by (simp only: d)
  show ?thesis
  proof (cases "truthy (start_date e)")
    case True
    then show ?thesis by (simp add: event_filter_def day_rule_def key)
  next
    case False
    then have "start_date e \<noteq> Some (ymd_key (y, m, dd))"
      using ymd_key_not_empty [of "(y, m, dd)"] by (cases "start_date e") auto
    with False show ?thesis
      by (simp add: event_filter_def day_rule_def str)
  qed
qed

lemma day_rule_populated:
  "day_rule z parse ymd e \<Longrightarrow> truthy (start_date e) \<or> truthy (start_dateTime e)"
  using ymd_key_not_empty [of ymd] by (auto simp: day_rule_def split: if_splits)

text \<open>
  Claim C1, with the precedence of \<^verbatim>\<open>start.date\<close>, for a selected date whose local year
  has four digits, in any time zone. The list shown is the sublist, in fetch order, of
  the events that match \<open>day_rule\<close> for the local calendar date of the selection: the
  \<^verbatim>\<open>start.date\<close> is the \<^verbatim>\<open>YYYY-MM-DD\<close> key of that date, or there is no \<^verbatim>\<open>start.date\<close> and
  the \<^verbatim>\<open>start.dateTime\<close> is an instant of that local calendar date. An event with neither
  field is in no day's list.
\<close>

theorem events_of_day:
  assumes "local_date z d = Some (y, m, dd)" and "1000 \<le> y" and "y \<le> 9999"
  shows "getEventsForDate z parse st (Some d) =
           filter (day_rule z parse (y, m, dd)) (allEvents st) \<and>
         (\<forall>e \<in> set (getEventsForDate z parse st (Some d)).
            truthy (start_date e) \<or> truthy (start_dateTime e))"
proof -
  have "event_filter z parse d = day_rule z parse (y, m, dd)"
    using assms by (intro ext event_filter_day_rule)
  then have e: "getEventsForDate z parse st (Some d) =
     filter (day_rule z parse (y, m, dd)) (allEvents st)"
    by (simp add: getEventsForDate_def)
  then show ?thesis
    using day_rule_populated [of z parse "(y, m, dd)"] by simp
qed

lemma november_2024_dates:
  "local_date new_york_2024 (Num 1730606400000) = Some (2024, 10, 3)"
  "local_date new_york_2024 (Num 1730694600000) = Some (2024, 10, 3)"
  "local_date new_york_2024 (Num 1730728800000) = Some (2024, 10, 4)"
  by code_simp+

lemma key_2024_11_03: "ymd_key (2024, 10, 3) = ''2024-11-03''"
  by (simp add: digit_char_def)

text \<open>
  Four fetched events and the selection of 3 November 2024 in New York, the day on which
  daylight saving time ends there: an all-day event of that day, a timed event of the
  next morning, a timed event at 23:30 of that day, local time (04:30 of 4 November in
  UTC, after the change of offset), and an event with no start. The list shown is the
  first and the third, in that order.
\<close>

theorem events_of_day_witness:
  "local_date new_york_2024 (Num 1730606400000) = Some (2024, 10, 3) \<and>
   getEventsForDate new_york_2024
     (\<lambda>s. if s = ''2024-11-04T09:00:00-05:00'' then Num 1730728800000
          else if s = ''2024-11-03T23:30:00-05:00'' then Num 1730694600000 else NaN)
     \<lparr>currentDate = Num 1730606400000, selectedDate = Some (Num 1730606400000),
      allEvents =
        [\<lparr>event_id = Some ''a'', summary = Some ''Holiday'',
          start = Some \<lparr>date = Some ''2024-11-03'', dateTime = None\<rparr>, location = None\<rparr>,
         \<lparr>event_id = Some ''b'', summary = Some ''Review'',
          start = Some \<lparr>date = None, dateTime = Some ''2024-11-04T09:00:00-05:00''\<rparr>,
          location = None\<rparr>,
         \<lparr>event_id = Some ''c'', summary = None,
          start = Some \<lparr>date = None, dateTime = Some ''2024-11-03T23:30:00-05:00''\<rparr>,
          location = None\<rparr>,
         \<lparr>event_id = Some ''d'', summary = Some ''Draft'', start = None, location = None\<rparr>],
      loading = False, cal_console = []\<rparr>
     (Some (Num 1730606400000)) =
   [\<lparr>event_id = Some ''a'', summary = Some ''Holiday'',
     start = Some \<lparr>date = Some ''2024-11-03'', dateTime = None\<rparr>, location = None\<rparr>,
    \<lparr>event_id = Some ''c'', summary = None,
     start = Some \<lparr>date = None, dateTime = Some ''2024-11-03T23:30:00-05:00''\<rparr>,
     location = None\<rparr>]"
  using events_of_day
    [OF november_2024_dates(1), of
        "\<lambda>s. if s = ''2024-11-04T09:00:00-05:00'' then Num 1730728800000
          else if s = ''2024-11-03T23:30:00-05:00'' then Num 1730694600000 else NaN"
        "\<lparr>currentDate = Num 1730606400000, selectedDate = Some (Num 1730606400000),
      allEvents =
        [\<lparr>event_id = Some ''a'', summary = Some ''Holiday'',
          start = Some \<lparr>date = Some ''2024-11-03'', dateTime = None\<rparr>, location = None\<rparr>,
         \<lparr>event_id = Some ''b'', summary = Some ''Review'',
          start = Some \<lparr>date = None, dateTime = Some ''2024-11-04T09:00:00-05:00''\<rparr>,
          location = None\<rparr>,
         \<lparr>event_id = Some ''c'', summary = None,
          start = Some \<lparr>date = None, dateTime = Some ''2024-11-03T23:30:00-05:00''\<rparr>,
          location = None\<rparr>,
         \<lparr>event_id = Some ''d'', summary = Some ''Draft'', start = None, location = None\<rparr>],
      loading = False, cal_console = []\<rparr>"]
  by (simp add: day_rule_def start_date_def start_dateTime_def november_2024_dates
      key_2024_11_03 del: local_date.simps ymd_key.simps)

lemma march_2024_dates:
  "local_date utc_zone (Num 1709596800000) = Some (2024, 2, 5)"
  "local_date utc_zone (Num 1709632800000) = Some (2024, 2, 5)"
  by code_simp+

lemma key_2024_03_05: "ymd_key (2024, 2, 5) = ''2024-03-05''"
  by (simp add: digit_char_def)

lemma dateYMD_2024_03_05: "dateYMD utc_zone (Num 1709596800000) = ''2024-03-05''"
  by code_simp

text \<open>
  An event with both fields whose \<^verbatim>\<open>start.date\<close> is 6 March and whose \<^verbatim>\<open>start.dateTime\<close>
  is an instant of 5 March, and the selection of 5 March 2024, in UTC: the event matches
  the rule as the specification words it, by its timed start, but the list shown is
  empty.
\<close>

theorem events_of_day_both_fields:
  "local_date utc_zone (Num 1709596800000) = Some (2024, 2, 5) \<and>
   filter (stated_day_rule utc_zone (\<lambda>s. Num 1709632800000) (2024, 2, 5))
     [\<lparr>event_id = None, summary = Some ''Review'',
       start = Some \<lparr>date = Some ''2024-03-06'', dateTime = Some ''2024-03-05T10:00:00Z''\<rparr>,
       location = None\<rparr>] =
     [\<lparr>event_id = None, summary = Some ''Review'',
       start = Some \<lparr>date = Some ''2024-03-06'', dateTime = Some ''2024-03-05T10:00:00Z''\<rparr>,
       location = None\<rparr>] \<and>
   getEventsForDate utc_zone (\<lambda>s. Num 1709632800000)
     \<lparr>currentDate = Num 1709596800000, selectedDate = Some (Num 1709596800000),
      allEvents =
        [\<lparr>event_id = None, summary = Some ''Review'',
          start = Some \<lparr>date = Some ''2024-03-06'', dateTime = Some ''2024-03-05T10:00:00Z''\<rparr>,
          location = None\<rparr>],
      loading = False, cal_console = []\<rparr>
     (Some (Num 1709596800000)) = []"
  by (simp add: stated_day_rule_def getEventsForDate_def event_filter_def start_date_def
      start_dateTime_def march_2024_dates key_2024_03_05 dateYMD_2024_03_05
      del: local_date.simps ymd_key.simps)

text \<open>
  The year of the key is not padded. For 5 March of the year 987, in UTC, the filter
  builds the key \<^verbatim>\<open>987-03-05\<close>, which is not the \<^verbatim>\<open>YYYY-MM-DD\<close> key of that date: the
  condition on the year in \<open>events_of_day\<close> cannot be dropped.
\<close>

lemma dateYMD_year_987:
  "local_date utc_zone (Num (- 31015008000000)) = Some (987, 2, 5) \<and>
   dateYMD utc_zone (Num (- 31015008000000)) = ''987-03-05'' \<and>
   ymd_key (987, 2, 5) = ''0987-03-05''"
  by code_simp

text \<open>
  Claim C10. For an event whose \<^verbatim>\<open>start.date\<close> is populated, and so for one with both
  fields populated, the filter decides by the all-day rule alone: the event is shown
  exactly when its \<^verbatim>\<open>start.date\<close> is the key of the day, and neither another value of
  \<^verbatim>\<open>start.dateTime\<close> nor another reading of it changes the decision.
\<close>

theorem filter_all_day_rule_only:
  assumes "start e = Some s" and "truthy (date s)"
  shows "event_filter z parse d e = (date s = Some (dateYMD z d)) \<and>
         event_filter z parse' d (e\<lparr>start := Some (s\<lparr>dateTime := dt\<rparr>)\<rparr>)
           = event_filter z parse d e \<and>
         (e \<in> set (getEventsForDate z parse st (Some d)) \<longleftrightarrow>
            e \<in> set (allEvents st) \<and> date s = Some (dateYMD z d))"
  using assms by (simp add: event_filter_def start_date_def getEventsForDate_def)

theorem filter_all_day_rule_only_witness:
  "start \<lparr>event_id = None, summary = Some ''Review'',
          start = Some \<lparr>date = Some ''2024-03-06'', dateTime = Some ''2024-03-05T10:00:00Z''\<rparr>,
          location = None\<rparr>
     = Some \<lparr>date = Some ''2024-03-06'', dateTime = Some ''2024-03-05T10:00:00Z''\<rparr> \<and>
   truthy (date \<lparr>date = Some ''2024-03-06'', dateTime = Some ''2024-03-05T10:00:00Z''\<rparr>) \<and>
   truthy (dateTime \<lparr>date = Some ''2024-03-06'', dateTime = Some ''2024-03-05T10:00:00Z''\<rparr>) \<and>
   \<not> event_filter utc_zone (\<lambda>s. Num 1709632800000) (Num 1709596800000)
       \<lparr>event_id = None, summary = Some ''Review'',
        start = Some \<lparr>date = Some ''2024-03-06'', dateTime = Some ''2024-03-05T10:00:00Z''\<rparr>,
        location = None\<rparr>"
  using filter_all_day_rule_only
    [of "\<lparr>event_id = None, summary = Some ''Review'',
          start = Some \<lparr>date = Some ''2024-03-06'', dateTime = Some ''2024-03-05T10:00:00Z''\<rparr>,
          location = None\<rparr>"
        "\<lparr>date = Some ''2024-03-06'', dateTime = Some ''2024-03-05T10:00:00Z''\<rparr>"
        utc_zone "\<lambda>s. Num 1709632800000" "Num 1709596800000"]
  by (simp add: dateYMD_2024_03_05)

lemma matched_event_populated:
  "e \<in> set (getEventsForDate z parse st d) \<Longrightarrow> truthy (start_date e) \<or> truthy (start_dateTime e)"
  by (cases d) (auto simp: getEventsForDate_def event_filter_def split: if_splits)

text \<open>
  Claim C4, for the events of the data model: exactly one of \<^verbatim>\<open>start.date\<close> and
  \<^verbatim>\<open>start.dateTime\<close> populated. The box of such an event in the list of the day has two
  children: the title, or "(No title)" when the summary is missing or empty, and then
  either the local start time of a timed event or the "All day" mark of an all-day one.
\<close>

theorem renderEvent_one_marker:
  assumes "e \<in> set (getEventsForDate z parse st d)"
    and "\<not> (truthy (start_date e) \<and> truthy (start_dateTime e))"
  shows "renderEvent fmt parse e =
           [Title (if truthy (summary e) then the (summary e) else ''(No title)''),
            if truthy (start_dateTime e)
            then StartTime (fmt (parse (the (start_dateTime e)))) else AllDay]"
  using matched_event_populated [OF assms(1)] assms(2) by (auto simp: renderEvent_def)

theorem renderEvent_one_marker_witness:
  "\<lparr>event_id = None, summary = None,
     start = Some \<lparr>date = Some ''2024-03-05'', dateTime = None\<rparr>, location = None\<rparr>
   \<in> set (getEventsForDate utc_zone (\<lambda>s. NaN)
        \<lparr>currentDate = Num 1709596800000, selectedDate = Some (Num 1709596800000),
         allEvents = [\<lparr>event_id = None, summary = None,
           start = Some \<lparr>date = Some ''2024-03-05'', dateTime = None\<rparr>, location = None\<rparr>],
         loading = False, cal_console = []\<rparr> (Some (Num 1709596800000))) \<and>
   renderEvent (\<lambda>d. ''--:--'') (\<lambda>s. NaN)
     \<lparr>event_id = None, summary = None,
      start = Some \<lparr>date = Some ''2024-03-05'', dateTime = None\<rparr>, location = None\<rparr>
   = [Title ''(No title)'', AllDay]"
proof -
  define e where "e = \<lparr>event_id = None, summary = None,
     start = Some \<lparr>date = Some ''2024-03-05'', dateTime = None\<rparr>, location = None\<rparr>"
  define st where "st = \<lparr>currentDate = Num 1709596800000, selectedDate = Some (Num 1709596800000),
         allEvents = [e], loading = False, cal_console = []\<rparr>"
  have m: "e \<in> set (getEventsForDate utc_zone (\<lambda>s. NaN) st (Some (Num 1709596800000)))"
    by (simp add: getEventsForDate_def event_filter_def start_date_def e_def st_def
        dateYMD_2024_03_05)
  have one: "\<not> (truthy (start_date e) \<and> truthy (start_dateTime e))"
    by (simp add: start_dateTime_def e_def)
  have "renderEvent (\<lambda>d. ''--:--'') (\<lambda>s. NaN) e = [Title ''(No title)'', AllDay]"
    using renderEvent_one_marker [OF m one, of "\<lambda>d. ''--:--''"]
    by (simp add: start_dateTime_def e_def)
  with m show ?thesis unfolding e_def st_def by simp
qed

text \<open>
  An event with both fields populated that is in the list of 5 March 2024: its box
  shows the start time and the "All day" mark.
\<close>

theorem renderEvent_both_markers:
  "\<lparr>event_id = None, summary = Some ''Standup'',
     start = Some \<lparr>date = Some ''2024-03-05'', dateTime = Some ''2024-03-05T09:00:00Z''\<rparr>,
     location = None\<rparr>
   \<in> set (getEventsForDate utc_zone (\<lambda>s. Num 1709629200000)
        \<lparr>currentDate = Num 1709596800000, selectedDate = Some (Num 1709596800000),
         allEvents = [\<lparr>event_id = None, summary = Some ''Standup'',
           start = Some \<lparr>date = Some ''2024-03-05'', dateTime = Some ''2024-03-05T09:00:00Z''\<rparr>,
           location = None\<rparr>],
         loading = False, cal_console = []\<rparr> (Some (Num 1709596800000))) \<and>
   renderEvent (\<lambda>d. ''09:00 AM'') (\<lambda>s. Num 1709629200000)
     \<lparr>event_id = None, summary = Some ''Standup'',
      start = Some \<lparr>date = Some ''2024-03-05'', dateTime = Some ''2024-03-05T09:00:00Z''\<rparr>,
      location = None\<rparr>
   = [Title ''Standup'', StartTime ''09:00 AM'', AllDay]"
  by (simp add: getEventsForDate_def event_filter_def start_date_def start_dateTime_def
      renderEvent_def dateYMD_2024_03_05)

end
